(* ===== verification/Prelude.thy ===== *)
theory Prelude
  imports Complex_Main "HOL-Library.Multiset" "HOL-Library.Monad_Syntax" "HOL-Library.Sublist"
begin

text \<open>
  Shared vocabulary of the development.

  \<^item> The named collections: \<open>mask_simps\<close> (bit masks as sets of positions), \<open>float_simps\<close>
    (comparisons of Python floats), \<open>res_simps\<close> (results and exceptions).
  \<^item> Exceptions as values: \<open>py_error\<close> names the exception classes the modelled code raises and
    \<open>'a res\<close> is "raises or returns".
  \<^item> Python floats as \<open>pyfloat\<close>: a finite value, an infinity or NaN, with the comparison operators
    of the language (every comparison with NaN is False). Finite arithmetic is exact: binary64
    rounding is not modelled.
  \<^item> Python integers used as bit masks, read as finite sets of positions.
  \<^item> \<open>sorted\<close> with a key, as the library's stable \<open>sort_key\<close>.
\<close>

named_theorems mask_simps \<open>bit masks as sets of positions\<close>
named_theorems float_simps \<open>comparisons of Python floats\<close>
named_theorems res_simps \<open>results and exceptions\<close>

section \<open>Exceptions as values\<close>

datatype py_error =
    ValueError
  | TypeError
  | KeyError
  | RuntimeError
  | RecursionError
  | AssertionError
  | TimeoutError
  | ConfigError
  | TracebedError
  | ProvenanceIncomplete
  | ScoringInputInvalid
  | CrossEpochComparison
  | EpochStoreViolation
  | JudgeEpochMismatch
  | JudgeResponseInvalid
  | OtherError

type_synonym 'a res = "py_error + 'a"

abbreviation raise :: "'e \<Rightarrow> 'e + 'a" where
  "raise e \<equiv> Inl e"

abbreviation ok :: "'a \<Rightarrow> 'e + 'a" where
  "ok x \<equiv> Inr x"

definition bind_res :: "'e + 'a \<Rightarrow> ('a \<Rightarrow> 'e + 'b) \<Rightarrow> 'e + 'b" where
  "bind_res r f = (case r of Inl e \<Rightarrow> Inl e | Inr x \<Rightarrow> f x)"

lemma bind_res_simps [simp, res_simps]:
  "bind_res (Inl e) f = Inl e"
  "bind_res (Inr x) f = f x"
  by (simp_all add: bind_res_def)

lemma bind_res_Inr_iff [res_simps]:
  "bind_res r f = Inr y \<longleftrightarrow> (\<exists>x. r = Inr x \<and> f x = Inr y)"
  by (cases r) simp_all

lemma bind_res_Inl_iff [res_simps]:
  "bind_res r f = Inl e \<longleftrightarrow> r = Inl e \<or> (\<exists>x. r = Inr x \<and> f x = Inl e)"
  by (cases r) simp_all

text \<open>A comprehension whose body may raise: the first exception ends it.\<close>

primrec map_res :: "('a \<Rightarrow> 'e + 'b) \<Rightarrow> 'a list \<Rightarrow> 'e + 'b list" where
  "map_res f [] = Inr []"
| "map_res f (x # xs) = bind_res (f x) (\<lambda>y. bind_res (map_res f xs) (\<lambda>ys. Inr (y # ys)))"

lemma map_res_Inr_iff:
  "map_res f xs = Inr ys \<longleftrightarrow> length ys = length xs \<and> (\<forall>i < length xs. f (xs ! i) = Inr (ys ! i))"
proof (induction xs arbitrary: ys)
  case Nil
  then show ?case by auto
next
  case (Cons x xs)
  then show ?case
    by (cases ys) (auto simp: res_simps less_Suc_eq_0_disj)
qed

lemma map_res_total:
  "(\<And>x. x \<in> set xs \<Longrightarrow> f x = Inr (g x)) \<Longrightarrow> map_res f xs = Inr (map g xs)"
  by (induction xs) simp_all

section \<open>Python floats\<close>

datatype pyfloat = Fin real | PosInf | NegInf | NaN

fun fle :: "pyfloat \<Rightarrow> pyfloat \<Rightarrow> bool" where
  "fle NaN _ = False"
| "fle _ NaN = False"
| "fle NegInf _ = True"
| "fle _ PosInf = True"
| "fle PosInf _ = False"
| "fle _ NegInf = False"
| "fle (Fin x) (Fin y) = (x \<le> y)"

fun flt :: "pyfloat \<Rightarrow> pyfloat \<Rightarrow> bool" where
  "flt NaN _ = False"
| "flt _ NaN = False"
| "flt NegInf NegInf = False"
| "flt NegInf _ = True"
| "flt PosInf _ = False"
| "flt _ PosInf = True"
| "flt _ NegInf = False"
| "flt (Fin x) (Fin y) = (x < y)"

fun isfinite :: "pyfloat \<Rightarrow> bool" where
  "isfinite (Fin _) = True"
| "isfinite _ = False"

text \<open>\<open>lo <= x <= hi\<close> on floats: False for NaN and for both infinities.\<close>

definition in_range :: "real \<Rightarrow> real \<Rightarrow> pyfloat \<Rightarrow> bool" where
  "in_range lo hi x \<longleftrightarrow> fle (Fin lo) x \<and> fle x (Fin hi)"

lemma within_iff [float_simps]:
  "in_range lo hi x \<longleftrightarrow> (\<exists>r. x = Fin r \<and> lo \<le> r \<and> r \<le> hi)"
  by (cases x) (auto simp: in_range_def)

lemma isfinite_iff [float_simps]: "isfinite x \<longleftrightarrow> (\<exists>r. x = Fin r)"
  by (cases x) auto

text \<open>Arithmetic as far as the code takes it past a check: exact on finite values, with the infinities and NaN of IEEE 754.\<close>

fun fneg :: "pyfloat \<Rightarrow> pyfloat" where
  "fneg (Fin x) = Fin (- x)"
| "fneg PosInf = NegInf"
| "fneg NegInf = PosInf"
| "fneg NaN = NaN"

fun fadd :: "pyfloat \<Rightarrow> pyfloat \<Rightarrow> pyfloat" where
  "fadd NaN _ = NaN"
| "fadd _ NaN = NaN"
| "fadd (Fin x) (Fin y) = Fin (x + y)"
| "fadd (Fin _) y = y"
| "fadd x (Fin _) = x"
| "fadd PosInf PosInf = PosInf"
| "fadd NegInf NegInf = NegInf"
| "fadd PosInf NegInf = NaN"
| "fadd NegInf PosInf = NaN"

definition fsub :: "pyfloat \<Rightarrow> pyfloat \<Rightarrow> pyfloat" where
  "fsub x y = fadd x (fneg y)"

definition fscale_inf :: "real \<Rightarrow> pyfloat \<Rightarrow> pyfloat" where
  "fscale_inf x y = (if x = 0 then NaN else if 0 < x then y else fneg y)"

fun fmul :: "pyfloat \<Rightarrow> pyfloat \<Rightarrow> pyfloat" where
  "fmul NaN _ = NaN"
| "fmul _ NaN = NaN"
| "fmul (Fin x) (Fin y) = Fin (x * y)"
| "fmul (Fin x) y = fscale_inf x y"
| "fmul x (Fin y) = fscale_inf y x"
| "fmul PosInf y = y"
| "fmul NegInf y = fneg y"

lemma fsub_Fin [simp]: "fsub (Fin x) (Fin y) = Fin (x - y)"
  by (simp add: fsub_def)

section \<open>Integers as bit masks\<close>

unbundle bit_operations_syntax

type_synonym mask = int

definition positions :: "mask \<Rightarrow> nat set" where
  "positions m = {i. bit m i}"

lemma mem_positions [mask_simps]: "i \<in> positions m \<longleftrightarrow> bit m i"
  by (simp add: positions_def)

lemma positions_and [mask_simps]: "positions (a AND b) = positions a \<inter> positions b"
  by (auto simp: positions_def bit_simps)

lemma positions_or [mask_simps]: "positions (a OR b) = positions a \<union> positions b"
  by (auto simp: positions_def bit_simps)

lemma positions_and_not [mask_simps]: "positions (a AND NOT b) = positions a - positions b"
  by (auto simp: positions_def bit_simps)

lemma positions_exp [mask_simps]: "positions (2 ^ v) = {v}"
  by (auto simp: positions_def bit_simps)

lemma positions_0 [mask_simps]: "positions 0 = {}"
  by (auto simp: positions_def)

lemma positions_or_exp [mask_simps]:
  "positions (a OR 2 ^ v) = insert v (positions a)"
  by (auto simp: mask_simps)

lemma positions_xor_exp [mask_simps]:
  "v \<in> positions a \<Longrightarrow> positions (a XOR 2 ^ v) = positions a - {v}"
  by (auto simp: positions_def bit_simps)

lemma positions_full [mask_simps]: "positions (2 ^ n - 1) = {..<n}"
  by (auto simp: positions_def bit_simps mask_eq_exp_minus_1 [symmetric])

lemma bit_imp_le:
  fixes m :: mask
  assumes "0 \<le> m" "bit m i"
  shows "2 ^ i \<le> m"
proof (rule ccontr)
  assume "\<not> 2 ^ i \<le> m"
  then have "m div 2 ^ i = 0" using assms(1) by (simp add: div_pos_pos_trivial)
  then show False using assms(2) by (simp add: bit_iff_odd)
qed

lemma finite_positions:
  assumes m: "0 \<le> m"
  shows "finite (positions m)"
proof -
  have "positions m \<subseteq> {..nat m}"
  proof
    fix i assume "i \<in> positions m"
    then have "2 ^ i \<le> m" using m by (simp add: positions_def bit_imp_le)
    moreover have "int i < 2 ^ i" by (rule of_nat_less_two_power)
    ultimately have "int i \<le> m" by linarith
    then show "i \<in> {..nat m}" by simp
  qed
  then show ?thesis by (rule finite_subset) simp
qed

lemma positions_empty_iff: "positions m = {} \<longleftrightarrow> m = 0"
  by (auto simp: positions_def bit_eq_iff)

text \<open>\<open>int.bit_count\<close> and \<open>int.bit_length\<close> of a non-negative integer.\<close>

function bit_count :: "mask \<Rightarrow> nat" where
  "bit_count m = (if m \<le> 0 then 0 else nat (m mod 2) + bit_count (m div 2))"
  by pat_completeness auto
termination
  by (relation "measure nat") auto

function bit_length :: "mask \<Rightarrow> nat" where
  "bit_length m = (if m \<le> 0 then 0 else Suc (bit_length (m div 2)))"
  by pat_completeness auto
termination
  by (relation "measure nat") auto

declare bit_count.simps [simp del] bit_length.simps [simp del]

lemma positions_rec:
  "positions m = (if odd m then {0} else {}) \<union> Suc ` positions (m div 2)"
proof -
  have "i \<in> positions m \<longleftrightarrow> i \<in> (if odd m then {0} else {}) \<union> Suc ` positions (m div 2)" for i
    by (cases i) (auto simp: positions_def bit_0 bit_Suc)
  then show ?thesis by blast
qed

lemma bit_count_card: "0 \<le> m \<Longrightarrow> bit_count m = card (positions m)"
proof (induction m rule: bit_count.induct)
  case (1 m)
  show ?case
  proof (cases "m = 0")
    case True
    then show ?thesis by (simp add: bit_count.simps [of 0] mask_simps)
  next
    case False
    with 1 have IH: "bit_count (m div 2) = card (positions (m div 2))" by simp
    have fin: "finite (positions (m div 2))" using 1(2) by (simp add: finite_positions)
    have "card (positions m) = card (if odd m then {0::nat} else {}) + card (Suc ` positions (m div 2))"
      by (subst positions_rec) (rule card_Un_disjoint, use fin in auto)
    also have "card (Suc ` positions (m div 2)) = card (positions (m div 2))"
      by (simp add: card_image)
    also have "card (if odd m then {0::nat} else {}) = nat (m mod 2)"
      by (simp add: mod_2_eq_odd)
    finally show ?thesis using 1(2) False by (simp add: bit_count.simps [of m] IH)
  qed
qed

lemma bit_length_exp: "bit_length (2 ^ i) = Suc i"
proof (induction i)
  case 0
  then show ?case by (simp add: bit_length.simps)
next
  case (Suc i)
  then show ?case by (subst bit_length.simps) simp
qed

text \<open>\<open>m & -m\<close> isolates the lowest set bit of a positive integer.\<close>

lemma low_bit_exp:
  fixes m :: mask
  assumes "0 < m"
  shows "\<exists>i. m AND - m = 2 ^ i \<and> bit m i"
  using assms
proof (induction m rule: bit_count.induct)
  case (1 m)
  show ?case
  proof (cases "odd m")
    case True
    then obtain q where q: "m = 2 * q + 1" by (elim oddE)
    have "- m div 2 = NOT q" "odd (- m)" "m div 2 = q"
      using q by (simp_all add: not_int_def)
    then have "m AND - m = 1" by (subst and_rec) (simp add: True)
    then show ?thesis using True by (intro exI [of _ 0]) (simp add: bit_0)
  next
    case False
    then obtain q where q: "m = 2 * q" by blast
    with 1(2) have "\<not> m \<le> 0" "0 < m div 2" "m div 2 = q" by auto
    with 1(1) obtain i where i: "q AND - q = 2 ^ i" "bit q i" by metis
    have "- m div 2 = - q" using q by simp
    then have "m AND - m = 2 ^ Suc i" using q i by (subst and_rec) simp
    then show ?thesis using i q by (intro exI [of _ "Suc i"]) (simp add: bit_Suc)
  qed
qed

text \<open>
  The loop \<open>while m: low = m & -m; v = low.bit_length() - 1; m ^= low\<close>, as the list of the
  positions \<open>v\<close> in the order the loop visits them.
\<close>

function bits_of :: "mask \<Rightarrow> nat list" where
  "bits_of m = (if m \<le> 0 then []
     else let low = m AND - m in (bit_length low - 1) # bits_of (m XOR low))"
  by pat_completeness auto
termination
proof (relation "measure (\<lambda>m. card (positions m))", simp)
  fix m low :: mask
  assume "\<not> m \<le> 0" and low: "low = m AND - m"
  then obtain i where i: "low = 2 ^ i" "bit m i" using low_bit_exp [of m] by auto
  then have "positions (m XOR low) = positions m - {i}" "i \<in> positions m"
    by (simp_all add: mask_simps)
  moreover have "finite (positions m)" using \<open>\<not> m \<le> 0\<close> by (simp add: finite_positions)
  ultimately show "(m XOR low, m) \<in> measure (\<lambda>m. card (positions m))"
    by (metis card_Diff1_less in_measure)
qed

declare bits_of.simps [simp del]

lemma bits_of_positions:
  assumes "0 \<le> m"
  shows "set (bits_of m) = positions m \<and> distinct (bits_of m)"
  using assms
proof (induction m rule: bits_of.induct)
  case (1 m)
  show ?case
  proof (cases "m = 0")
    case True
    then show ?thesis by (simp add: bits_of.simps [of 0] mask_simps)
  next
    case False
    with 1 have pos: "0 < m" by simp
    obtain i where i: "m AND - m = 2 ^ i" "bit m i" using low_bit_exp [OF pos] by blast
    have nn: "\<not> m \<le> 0" "0 \<le> m XOR (m AND - m)" using pos i(1) by simp_all
    have IH: "set (bits_of (m XOR 2 ^ i)) = positions m - {i} \<and> distinct (bits_of (m XOR 2 ^ i))"
      using 1(1) [OF nn(1) refl nn(2)] i(2) unfolding i(1) by (simp add: mask_simps)
    have "bits_of m = i # bits_of (m XOR 2 ^ i)"
      using pos i by (subst bits_of.simps) (simp add: bit_length_exp)
    then show ?thesis using IH i by (simp add: mem_positions insert_absorb)
  qed
qed

lemmas set_bits_of = bits_of_positions [THEN conjunct1]

text \<open>Evaluation of the loops on numerals.\<close>

lemma bit_count_numeral [simp]:
  "bit_count 0 = 0"
  "bit_count 1 = 1"
  "bit_count (numeral (num.Bit0 n)) = bit_count (numeral n)"
  "bit_count (numeral (num.Bit1 n)) = Suc (bit_count (numeral n))"
  by (subst bit_count.simps; simp)+

lemma bit_length_numeral [simp]:
  "bit_length 0 = 0"
  "bit_length 1 = 1"
  "bit_length (numeral (num.Bit0 n)) = Suc (bit_length (numeral n))"
  "bit_length (numeral (num.Bit1 n)) = Suc (bit_length (numeral n))"
  by (subst bit_length.simps; simp)+

lemma bits_of_numeral [simp]:
  "bits_of 0 = []"
  "bits_of 1 = [0]"
  "bits_of (numeral n) =
     (let low = numeral n AND - numeral n in (bit_length low - 1) # bits_of (numeral n XOR low))"
  by (subst bits_of.simps; simp)+

section \<open>Subsequences\<close>

lemma subseq_set: "subseq xs ys \<Longrightarrow> set xs \<subseteq> set ys"
  by (induction rule: list_emb.induct) auto

lemma sorted_wrt_subseq: "subseq xs ys \<Longrightarrow> sorted_wrt P ys \<Longrightarrow> sorted_wrt P xs"
proof (induction rule: list_emb.induct)
  case (list_emb_Cons2 x y xs ys)
  then show ?case using subseq_set [of xs ys] by auto
qed simp_all

lemma distinct_subseq: "subseq xs ys \<Longrightarrow> distinct ys \<Longrightarrow> distinct xs"
proof (induction rule: list_emb.induct)
  case (list_emb_Cons2 x y xs ys)
  then show ?case using subseq_set [of xs ys] by auto
qed simp_all

end
