(* ===== verification/Domain_Types.thy ===== *)
theory Domain_Types
  imports Prelude
begin

text \<open>
  The shared vocabulary of \<open>src/src/tracebed/domain\<close>: the closed enumerations of
  \<open>enums.py\<close> and \<open>state_machine.Status\<close>, the typed identifiers of \<open>ids.py\<close>,
  timestamps, and the scope-visibility predicate of \<open>visibility.py\<close>.

  Identifiers are distinct types over one 128-bit value. The code orders identifiers by
  \<open>str(id)\<close>, which is 32 lower-case hexadecimal digits with hyphens at fixed places, so the
  order of the strings is the order of the values; the \<open>linorder\<close> instances below are that order.
\<close>

section \<open>Enumerations\<close>

datatype status =
    QUARANTINED | CANDIDATE | VALIDATED | SUPERSEDED | STALE | RETIRED | ARCHIVED | PINNED | TOMBSTONED

datatype provenance_class = PARSER | DISTILLER | HUMAN_VERDICT | PROPOSAL | OPERATOR

datatype trust_tier = TierA | TierB

datatype mem_type = EPISODIC | SEMANTIC | LESSON | PREFERENCE

datatype lane = OPERATIONAL | QUALITY

datatype scope_type = AGENT_TYPE | WORKFLOW_TEMPLATE | USER | PROJECT_SHARED

datatype slot = STATIC_PREFIX | FACT | EXEMPLAR | PITFALL | CANDIDATE_NOTE | JIT_LESSON

datatype outcome_code =
    INJECTED | ABSTAINED_THRESHOLD | ABSTAINED_RARITY | EMPTY_RESULT | DEGRADED_LEXICAL
  | TIMEOUT_PREFIX_ONLY | STORE_ERROR | HOLDOUT_CODE

datatype arm = MEMORY_ON | HOLDOUT

datatype adapter_class = VERDICT | CORRECTION_ADAPTER | DOWNSTREAM | IMPLICIT

definition all_statuses :: "status list" where
  "all_statuses = [QUARANTINED, CANDIDATE, VALIDATED, SUPERSEDED, STALE, RETIRED, ARCHIVED, PINNED, TOMBSTONED]"

lemma set_all_statuses [simp]: "set all_statuses = UNIV"
  by (auto simp: all_statuses_def intro: status.exhaust)

section \<open>Typed identifiers\<close>

type_synonym uuid = int

datatype project_id = ProjectId (project_value: uuid)
datatype run_id = RunId (run_value: uuid)
datatype principal_id = PrincipalId (principal_value: uuid)
datatype memory_id = MemoryId (memory_value: uuid)
datatype agent_type_id = AgentTypeId (agent_type_value: uuid)

instantiation memory_id :: linorder
begin

definition less_eq_memory_id :: "memory_id \<Rightarrow> memory_id \<Rightarrow> bool" where
  "less_eq_memory_id a b \<longleftrightarrow> memory_value a \<le> memory_value b"

definition less_memory_id :: "memory_id \<Rightarrow> memory_id \<Rightarrow> bool" where
  "less_memory_id a b \<longleftrightarrow> memory_value a < memory_value b"

instance
  by standard (auto simp: less_eq_memory_id_def less_memory_id_def intro: memory_id.expand)

end

instantiation run_id :: linorder
begin

definition less_eq_run_id :: "run_id \<Rightarrow> run_id \<Rightarrow> bool" where
  "less_eq_run_id a b \<longleftrightarrow> run_value a \<le> run_value b"

definition less_run_id :: "run_id \<Rightarrow> run_id \<Rightarrow> bool" where
  "less_run_id a b \<longleftrightarrow> run_value a < run_value b"

instance
  by standard (auto simp: less_eq_run_id_def less_run_id_def intro: run_id.expand)

end

lemmas id_order_simps = less_eq_memory_id_def less_memory_id_def less_eq_run_id_def less_run_id_def

section \<open>Timestamps\<close>

text \<open>A datetime counts microseconds; \<open>Naive\<close> is one without a usable \<open>tzinfo\<close>.\<close>

datatype datetime = Aware int | Naive int

fun is_aware :: "datetime \<Rightarrow> bool" where
  "is_aware (Aware _) = True"
| "is_aware (Naive _) = False"

fun micros :: "datetime \<Rightarrow> int" where
  "micros (Aware t) = t"
| "micros (Naive t) = t"

definition timedelta_days :: "int \<Rightarrow> int" where
  "timedelta_days d = d * 86400 * 1000000"

section \<open>Scope visibility (\<open>domain/visibility.py\<close>)\<close>

record run_visibility =
  rv_agent_type_id :: agent_type_id
  rv_workflow_template_id :: "uuid option"
  rv_user_scope_id :: "uuid option"

fun scope_visible :: "scope_type \<Rightarrow> uuid option \<Rightarrow> run_visibility \<Rightarrow> bool" where
  "scope_visible PROJECT_SHARED _ _ = True"
| "scope_visible AGENT_TYPE scope_id v =
     (scope_id \<noteq> None \<and> scope_id = Some (agent_type_value (rv_agent_type_id v)))"
| "scope_visible WORKFLOW_TEMPLATE scope_id v =
     (scope_id \<noteq> None \<and> rv_workflow_template_id v \<noteq> None \<and> scope_id = rv_workflow_template_id v)"
| "scope_visible USER scope_id v =
     (scope_id \<noteq> None \<and> rv_user_scope_id v \<noteq> None \<and> scope_id = rv_user_scope_id v)"

lemma scope_visible_unscoped: "scope_visible t None v \<longleftrightarrow> t = PROJECT_SHARED"
  by (cases t) auto

lemma scope_visible_fail_closed:
  "rv_workflow_template_id v = None \<Longrightarrow> rv_user_scope_id v = None \<Longrightarrow>
   scope_visible t s v \<longleftrightarrow>
     t = PROJECT_SHARED \<or> t = AGENT_TYPE \<and> s = Some (agent_type_value (rv_agent_type_id v))"
  by (cases t) auto

end
