(* ===== verification/Signatures.thy ===== *)
theory Signatures
  imports Domain_Types "HOL-Library.Word"
begin

text \<open>
  \<open>src/src/tracebed/domain/signatures.py\<close>, the comparison half: Hamming distance, the
  cluster test on the trailing SimHash of a 40-byte input signature, and the absent-signature
  sentinel. A byte is an \<open>8 word\<close>; \<open>int.from_bytes(_, "big")\<close> is \<open>from_bytes_big\<close>.
\<close>

type_synonym byte = "8 word"

definition SIG_HASH_LEN :: nat where
  "SIG_HASH_LEN = 40"

definition SAME_CLUSTER_MAX_HAMMING :: nat where
  "SAME_CLUSTER_MAX_HAMMING = 8"

definition ABSENT_SIGNATURE :: "byte list" where
  "ABSENT_SIGNATURE = replicate 40 0"

definition from_bytes_big :: "byte list \<Rightarrow> int" where
  "from_bytes_big bs = foldl (\<lambda>acc b. acc * 256 + uint b) 0 bs"

definition hamming :: "int \<Rightarrow> int \<Rightarrow> nat" where
  "hamming a b = bit_count (a XOR b)"

text \<open>\<open>sig[-8:]\<close> of a list is its last eight elements.\<close>

definition trailing_simhash :: "byte list \<Rightarrow> int res" where
  "trailing_simhash s =
     (if length s \<noteq> SIG_HASH_LEN then raise ValueError
      else ok (from_bytes_big (drop (length s - 8) s)))"

definition same_cluster :: "byte list \<Rightarrow> byte list \<Rightarrow> bool res" where
  "same_cluster a b =
     bind_res (trailing_simhash a) (\<lambda>x. bind_res (trailing_simhash b) (\<lambda>y.
       ok (hamming x y \<le> SAME_CLUSTER_MAX_HAMMING)))"

definition is_absent_signature :: "byte list \<Rightarrow> bool" where
  "is_absent_signature s \<longleftrightarrow> s = ABSENT_SIGNATURE"

text \<open>The distance between the SimHash tails, with no length check: what \<open>same_cluster\<close> thresholds.\<close>

definition sig_distance :: "byte list \<Rightarrow> byte list \<Rightarrow> nat" where
  "sig_distance a b = hamming (from_bytes_big (drop (length a - 8) a)) (from_bytes_big (drop (length b - 8) b))"

lemma same_cluster_eq:
  "same_cluster a b =
     (if length a = SIG_HASH_LEN \<and> length b = SIG_HASH_LEN
      then ok (sig_distance a b \<le> SAME_CLUSTER_MAX_HAMMING) else raise ValueError)"
  by (simp add: same_cluster_def trailing_simhash_def sig_distance_def)

lemma hamming_commute: "hamming a b = hamming b a"
  by (simp add: hamming_def xor.commute)

lemma hamming_refl [simp]: "hamming a a = 0"
  by (simp add: hamming_def bit_count.simps)

lemma sig_distance_commute: "sig_distance a b = sig_distance b a"
  by (simp add: sig_distance_def hamming_commute)

lemma sig_distance_refl [simp]: "sig_distance a a = 0"
  by (simp add: sig_distance_def)

lemma from_bytes_big_nonneg: "0 \<le> from_bytes_big bs"
proof -
  have "0 \<le> acc \<Longrightarrow> 0 \<le> foldl (\<lambda>acc b. acc * 256 + uint b) acc bs" for acc :: int
    by (induction bs arbitrary: acc) simp_all
  then show ?thesis by (simp add: from_bytes_big_def)
qed

lemma hamming_card:
  assumes "0 \<le> a" "0 \<le> b"
  shows "hamming a b = card ((positions a - positions b) \<union> (positions b - positions a))"
proof -
  have "positions (a XOR b) = (positions a - positions b) \<union> (positions b - positions a)"
    by (auto simp: positions_def bit_simps)
  then show ?thesis using assms by (simp add: hamming_def bit_count_card)
qed

lemma hamming_triangle:
  assumes "0 \<le> a" "0 \<le> b" "0 \<le> c"
  shows "hamming a c \<le> hamming a b + hamming b c"
proof -
  let ?d = "\<lambda>x y. (positions x - positions y) \<union> (positions y - positions x)"
  have fin: "finite (?d a b \<union> ?d b c)" using assms by (simp add: finite_positions)
  have "card (?d a c) \<le> card (?d a b \<union> ?d b c)" by (rule card_mono [OF fin]) auto
  also have "\<dots> \<le> card (?d a b) + card (?d b c)" by (rule card_Un_le)
  finally show ?thesis using assms by (simp add: hamming_card)
qed

end
