(* ===== verification/Ids.thy ===== *)
theory Ids
  imports Signatures
begin

text \<open>
  Identifiers as \<open>src/src/tracebed/domain/ids.py\<close> builds them: the \<open>TypedId\<close> constructor, the
  UUIDv7 mint with its process-wide \<open>_last_ms\<close> and \<open>_counter\<close>, and the timestamp reader. What the
  code uses of the standard library is written out: \<open>str(UUID)\<close>, \<open>UUID(str)\<close> and \<open>int(s, 16)\<close>.

  A \<open>string\<close> here is a list of characters with code points below 256.
\<close>

section \<open>Text of a UUID\<close>

definition hex_char :: "int \<Rightarrow> char" where
  "hex_char d = char_of (nat (if d < 10 then 48 + d else 87 + d))"

definition hex_value :: "char \<Rightarrow> int option" where
  "hex_value c =
     (let n = int (of_char c)
      in if 48 \<le> n \<and> n \<le> 57 then Some (n - 48)
         else if 97 \<le> n \<and> n \<le> 102 then Some (n - 87)
         else if 65 \<le> n \<and> n \<le> 70 then Some (n - 55)
         else None)"

primrec hex_of :: "nat \<Rightarrow> int \<Rightarrow> string" where
  "hex_of 0 n = []"
| "hex_of (Suc k) n = hex_of k (n div 16) @ [hex_char (n mod 16)]"

definition uuid_str :: "uuid \<Rightarrow> string" where
  "uuid_str u =
     (let h = hex_of 32 u
      in take 8 h @ ''-'' @ take 4 (drop 8 h) @ ''-'' @ take 4 (drop 12 h) @ ''-'' @ take 4 (drop 16 h) @ ''-'' @ drop 20 h)"

text \<open>\<open>str.strip\<close>, \<open>str.strip(chars)\<close> and \<open>str.replace(p, '')\<close>.\<close>

definition py_isspace :: "char \<Rightarrow> bool" where
  "py_isspace c = (let n = of_char c :: nat in (9 \<le> n \<and> n \<le> 13) \<or> (28 \<le> n \<and> n \<le> 32) \<or> n = 133 \<or> n = 160)"

definition strip_by :: "(char \<Rightarrow> bool) \<Rightarrow> string \<Rightarrow> string" where
  "strip_by p s = rev (dropWhile p (rev (dropWhile p s)))"

abbreviation py_strip :: "string \<Rightarrow> string" where
  "py_strip \<equiv> strip_by py_isspace"

function py_remove :: "string \<Rightarrow> string \<Rightarrow> string" where
  "py_remove p [] = []"
| "py_remove p (c # cs) =
     (if p \<noteq> [] \<and> take (length p) (c # cs) = p then py_remove p (drop (length p) (c # cs))
      else c # py_remove p cs)"
  by pat_completeness auto
termination by (relation "measure (length \<circ> snd)") auto

fun hexdigits :: "bool \<Rightarrow> int \<Rightarrow> string \<Rightarrow> int option" where
  "hexdigits seen acc [] = (if seen then Some acc else None)"
| "hexdigits seen acc (c # cs) =
     (if c = CHR ''_'' then (if seen then hexdigits False acc cs else None)
      else case hex_value c of None \<Rightarrow> None | Some d \<Rightarrow> hexdigits True (acc * 16 + d) cs)"

definition int_base16 :: "string \<Rightarrow> int option" where
  "int_base16 s =
     (let t = py_strip s;
          neg = (t \<noteq> [] \<and> hd t = CHR ''-'');
          t = (if t \<noteq> [] \<and> hd t \<in> {CHR ''-'', CHR ''+''} then tl t else t);
          prefixed = take 2 t \<in> {''0x'', ''0X''};
          t = (if prefixed then drop 2 t else t);
          t = (if prefixed \<and> t \<noteq> [] \<and> hd t = CHR ''_'' then tl t else t)
      in map_option (\<lambda>n. if neg then - n else n) (hexdigits False 0 t))"

definition uuid_of_str :: "string \<Rightarrow> uuid res" where
  "uuid_of_str s =
     (let h = py_remove ''-'' (strip_by (\<lambda>c. c \<in> {CHR ''{'', CHR ''}''}) (py_remove ''uuid:'' (py_remove ''urn:'' s)))
      in if length h \<noteq> 32 then raise ValueError
         else case int_base16 h of
                None \<Rightarrow> raise ValueError
              | Some n \<Rightarrow> if 0 \<le> n \<and> n < 2 ^ 128 then ok n else raise ValueError)"

section \<open>TypedId\<close>

text \<open>The dynamic argument of \<open>TypedId.__init__\<close>.\<close>

datatype id_arg = ArgTypedId uuid | ArgUUID uuid | ArgStr string | ArgOther

definition typed_id_init :: "id_arg \<Rightarrow> uuid res" where
  "typed_id_init value =
     (case value of
        ArgTypedId _ \<Rightarrow> raise TypeError
      | ArgStr s \<Rightarrow> (case uuid_of_str s of Inl ValueError \<Rightarrow> raise ValueError | r \<Rightarrow> r)
      | ArgUUID u \<Rightarrow> ok u
      | ArgOther \<Rightarrow> raise TypeError)"

section \<open>UUIDv7\<close>

record mint_state =
  last_ms :: int
  counter :: int

definition mint_init :: mint_state where
  "mint_init = \<lparr>last_ms = -1, counter = 0\<rparr>"

definition COUNTER_MAX :: int where
  "COUNTER_MAX = 0xFFF"

text \<open>The critical section: the millisecond and sequence number to use, and the new globals.\<close>

definition uuid7_tick :: "int \<Rightarrow> mint_state \<Rightarrow> (int \<times> int) \<times> mint_state" where
  "uuid7_tick now st =
     (let ms = now in
      if ms = last_ms st then
        (let c = counter st + 1
         in if c > COUNTER_MAX then ((ms + 1, 0), \<lparr>last_ms = ms + 1, counter = 0\<rparr>)
            else ((ms, c), st\<lparr>counter := c\<rparr>))
      else if ms < last_ms st then
        (let c = counter st + 1;
             st' = (if c > COUNTER_MAX then \<lparr>last_ms = last_ms st + 1, counter = 0\<rparr> else st\<lparr>counter := c\<rparr>)
         in ((last_ms st', counter st'), st'))
      else ((ms, 0), \<lparr>last_ms = ms, counter = 0\<rparr>))"

definition uuid7 :: "int \<Rightarrow> byte list \<Rightarrow> mint_state \<Rightarrow> uuid \<times> mint_state" where
  "uuid7 now urandom st =
     (let ((ms, seq), st') = uuid7_tick now st;
          rand_b = from_bytes_big urandom AND (push_bit 62 1 - 1);
          value = push_bit 80 (ms AND (push_bit 48 1 - 1));
          value = value OR push_bit 76 7;
          value = value OR push_bit 64 (seq AND COUNTER_MAX);
          value = value OR push_bit 62 2;
          value = value OR rand_b
      in (value, st'))"

text \<open>\<open>UUID.version\<close>: defined for the RFC 4122 variant only.\<close>

definition uuid_version :: "uuid \<Rightarrow> int option" where
  "uuid_version u = (if bit u 63 \<and> \<not> bit u 62 then Some (drop_bit 76 u AND 0xF) else None)"

definition uuid7_timestamp_ms :: "uuid \<Rightarrow> int res" where
  "uuid7_timestamp_ms u = (if uuid_version u \<noteq> Some 7 then raise ValueError else ok (drop_bit 80 u))"

definition mint_run_id :: "int \<Rightarrow> byte list \<Rightarrow> mint_state \<Rightarrow> run_id \<times> mint_state" where
  "mint_run_id now urandom st = (let (u, st') = uuid7 now urandom st in (RunId u, st'))"

definition mint_memory_id :: "int \<Rightarrow> byte list \<Rightarrow> mint_state \<Rightarrow> memory_id \<times> mint_state" where
  "mint_memory_id now urandom st = (let (u, st') = uuid7 now urandom st in (MemoryId u, st'))"

section \<open>Printing and parsing\<close>

lemma of_char_hex_char:
  assumes "0 \<le> d" "d < 16" shows "int (of_char (hex_char d)) = (if d < 10 then 48 + d else 87 + d)"
  using assms by (auto simp: hex_char_def of_char_of)

lemma hex_value_hex_char [simp]:
  assumes "0 \<le> d" "d < 16" shows "hex_value (hex_char d) = Some d"
  using of_char_hex_char [OF assms] assms by (auto simp: hex_value_def Let_def)

lemma hex_value_None: "hex_value c = None \<Longrightarrow> 0 \<le> d \<Longrightarrow> d < 16 \<Longrightarrow> hex_char d \<noteq> c"
  by auto

lemma length_hex_of [simp]: "length (hex_of k n) = k"
  by (induction k arbitrary: n) auto

lemma set_hex_of: "c \<in> set (hex_of k n) \<Longrightarrow> \<exists>d. 0 \<le> d \<and> d < 16 \<and> c = hex_char d"
proof (induction k arbitrary: n)
  case (Suc k)
  have "0 \<le> n mod 16" "n mod 16 < 16" by auto
  then have "\<exists>d. 0 \<le> d \<and> d < 16 \<and> hex_char (n mod 16) = hex_char d" by blast
  then show ?case using Suc by auto
qed simp

lemma not_in_hex_of: "hex_value c = None \<Longrightarrow> c \<notin> set (hex_of k n)"
  using set_hex_of by fastforce

lemma hexdigits_hex_of:
  "hexdigits seen acc (hex_of k n @ rest) = hexdigits (seen \<or> 0 < k) (acc * 16 ^ k + n mod 16 ^ k) rest"
proof (induction k arbitrary: n rest acc seen)
  case 0
  then show ?case by simp
next
  case (Suc k)
  have 16: "0 \<le> n mod 16" "n mod 16 < 16" by auto
  have "hex_char (n mod 16) \<noteq> CHR ''_''" using hex_value_None [OF _ 16, of "CHR ''_''"] by (simp add: hex_value_def)
  moreover have "n mod 16 ^ Suc k = (n div 16 mod 16 ^ k) * 16 + n mod 16"
    using zmod_zmult2_eq [of "16 ^ k" n 16] by (simp add: mult.commute)
  ultimately show ?case using Suc.IH 16 by (simp add: algebra_simps)
qed

lemma py_remove_absent: "p \<noteq> [] \<Longrightarrow> hd p \<notin> set s \<Longrightarrow> py_remove p s = s"
proof (induction p s rule: py_remove.induct)
  case (2 p c cs)
  then have "take (length p) (c # cs) \<noteq> p" by (cases p) auto
  then show ?case using 2 by auto
qed simp

lemma py_remove_hyphen: "py_remove ''-'' s = filter (\<lambda>c. c \<noteq> CHR ''-'') s"
  by (induction s) auto

lemma strip_by_id: "\<forall>c\<in>set s. \<not> p c \<Longrightarrow> strip_by p s = s"
proof -
  assume a: "\<forall>c\<in>set s. \<not> p c"
  have "dropWhile p xs = xs" if "\<forall>c\<in>set xs. \<not> p c" for xs using that by (cases xs) auto
  from this [of s] this [of "rev s"] show ?thesis using a by (simp add: strip_by_def)
qed

lemma int_base16_hex_of: "0 < k \<Longrightarrow> int_base16 (hex_of k n) = Some (n mod 16 ^ k)"
proof -
  assume k: "0 < k"
  have no: "CHR ''-'' \<notin> set (hex_of k n)" "CHR ''+'' \<notin> set (hex_of k n)" "CHR ''x'' \<notin> set (hex_of k n)"
    "CHR ''X'' \<notin> set (hex_of k n)"
    by (rule not_in_hex_of, simp add: hex_value_def)+
  have sp: "\<not> py_isspace c" if c: "c \<in> set (hex_of k n)" for c
  proof -
    obtain d where d: "0 \<le> d" "d < 16" "c = hex_char d" using set_hex_of [OF c] by blast
    have "int (of_char c) \<in> {48..57} \<union> {97..102}" using of_char_hex_char [OF d(1,2)] d by auto
    then show ?thesis by (auto simp: py_isspace_def Let_def)
  qed
  have "hd (hex_of k n) \<in> set (hex_of k n)" using k by (metis hd_in_set length_0_conv length_hex_of less_irrefl)
  then have "hd (hex_of k n) \<noteq> CHR ''-''" "hd (hex_of k n) \<noteq> CHR ''+''" using no(1,2) by metis+
  moreover have "CHR ''x'' \<notin> set (take 2 (hex_of k n))" "CHR ''X'' \<notin> set (take 2 (hex_of k n))"
    using no(3,4) by (meson in_set_takeD)+
  then have "take 2 (hex_of k n) \<noteq> ''0x''" "take 2 (hex_of k n) \<noteq> ''0X''" by force+
  ultimately show ?thesis using k sp strip_by_id [of "hex_of k n" py_isspace] hexdigits_hex_of [of False 0 k n "[]"]
    by (simp add: int_base16_def Let_def)
qed

lemma uuid_of_str_print [simp]:
  assumes "0 \<le> u" "u < 2 ^ 128" shows "uuid_of_str (uuid_str u) = ok u"
proof -
  let ?h = "hex_of 32 u"
  have cover: "set (uuid_str u) \<subseteq> insert (CHR ''-'') (set ?h)"
    by (auto simp: uuid_str_def Let_def dest: in_set_takeD in_set_dropD)
  have "CHR ''u'' \<notin> set ?h" "CHR ''{'' \<notin> set ?h" "CHR ''}'' \<notin> set ?h"
    by (rule not_in_hex_of, simp add: hex_value_def)+
  then have no: "CHR ''u'' \<notin> set (uuid_str u)" "CHR ''{'' \<notin> set (uuid_str u)" "CHR ''}'' \<notin> set (uuid_str u)"
    using cover by (auto dest: subsetD)
  have "\<forall>c\<in>set (uuid_str u). \<not> c \<in> {CHR ''{'', CHR ''}''}" using no(2,3) by blast
  then have same: "py_remove ''uuid:'' (py_remove ''urn:'' (uuid_str u)) = uuid_str u"
    "strip_by (\<lambda>c. c \<in> {CHR ''{'', CHR ''}''}) (uuid_str u) = uuid_str u"
    using no(1) by (simp_all add: py_remove_absent strip_by_id)
  have "CHR ''-'' \<notin> set ?h" by (rule not_in_hex_of) (simp add: hex_value_def)
  then have f: "filter (\<lambda>c. c \<noteq> CHR ''-'') xs = xs" if "set xs \<subseteq> set ?h" for xs using that by (auto simp: filter_id_conv)
  have "py_remove ''-'' (uuid_str u) = take 8 ?h @ take 4 (drop 8 ?h) @ take 4 (drop 12 ?h) @ take 4 (drop 16 ?h) @ drop 20 ?h"
    by (simp add: py_remove_hyphen uuid_str_def Let_def f set_take_subset set_drop_subset
        subset_trans [OF set_take_subset set_drop_subset])
  also have "\<dots> = ?h" by (simp add: append_take_drop_id flip: take_add append_assoc drop_drop)
  finally show ?thesis using same int_base16_hex_of [of 32 u] assms by (simp add: uuid_of_str_def)
qed

section \<open>The mint\<close>

lemma or_eq_plus:
  assumes "0 \<le> b" "b < 2 ^ k" shows "push_bit k a OR b = push_bit k a + (b :: int)"
proof -
  have "push_bit k a AND b = 0"
  proof (rule bit_eqI)
    fix n
    have "\<not> bit b n" if "k \<le> n"
    proof -
      have "b < 2 ^ n" using assms(2) that by (meson less_le_trans one_le_numeral power_increasing)
      then show ?thesis using assms(1) by (simp add: bit_iff_odd div_pos_pos_trivial)
    qed
    then show "bit (push_bit k a AND b) n \<longleftrightarrow> bit (0 :: int) n" by (auto simp: bit_simps)
  qed
  then show ?thesis by (simp add: disjunctive_add_eq_or)
qed

definition mint_wf :: "mint_state \<Rightarrow> bool" where
  "mint_wf st \<longleftrightarrow> -1 \<le> last_ms st \<and> 0 \<le> counter st \<and> counter st \<le> COUNTER_MAX"

definition mint_key :: "mint_state \<Rightarrow> int" where
  "mint_key st = last_ms st * 2 ^ 80 + 7 * 2 ^ 76 + counter st * 2 ^ 64 + 2 * 2 ^ 62"

lemma uuid7_tick_spec:
  assumes "mint_wf st" "0 \<le> now" "uuid7_tick now st = ((ms, seq), st')"
  shows "ms = last_ms st' \<and> seq = counter st' \<and> mint_wf st' \<and> now \<le> last_ms st' \<and>
     (last_ms st < last_ms st' \<or> last_ms st' = last_ms st \<and> counter st < counter st')"
  using assms by (auto simp: uuid7_tick_def mint_wf_def Let_def COUNTER_MAX_def split: if_splits)

lemma mint_key_step:
  assumes "mint_wf st" "mint_wf st'"
    "last_ms st < last_ms st' \<or> last_ms st' = last_ms st \<and> counter st < counter st'"
  shows "mint_key st + 2 ^ 64 \<le> mint_key st'"
  using assms by (auto simp: mint_wf_def mint_key_def COUNTER_MAX_def)

lemma from_bytes_mask: "0 \<le> from_bytes_big bs AND (push_bit 62 1 - 1)" "from_bytes_big bs AND (push_bit 62 1 - 1) < 2 ^ 62"
proof -
  have "from_bytes_big bs AND (push_bit 62 1 - 1) = take_bit 62 (from_bytes_big bs)"
    by (simp add: take_bit_eq_mask mask_eq_exp_minus_1 del: push_bit_numeral)
  then show "0 \<le> from_bytes_big bs AND (push_bit 62 1 - 1)" "from_bytes_big bs AND (push_bit 62 1 - 1) < 2 ^ 62"
    by (metis take_bit_nonnegative) (metis \<open>_ = take_bit 62 _\<close> take_bit_int_less_exp)
qed

lemma uuid7_layout:
  assumes "0 \<le> ms" "ms < 2 ^ 48" "0 \<le> seq" "seq \<le> COUNTER_MAX" "0 \<le> r" "r < 2 ^ 62"
  shows "(((push_bit 80 (ms AND (push_bit 48 1 - 1)) OR push_bit 76 7) OR push_bit 64 (seq AND COUNTER_MAX)) OR push_bit 62 2) OR r
     = ms * 2 ^ 80 + 7 * 2 ^ 76 + seq * 2 ^ 64 + 2 * 2 ^ 62 + r"
proof -
  have ms: "ms AND (push_bit 48 1 - 1) = ms"
    using assms(1,2) take_bit_int_eq_self [of ms 48] by (simp add: take_bit_eq_mask mask_eq_exp_minus_1)
  have seq: "seq AND COUNTER_MAX = seq"
    using assms(3,4) take_bit_int_eq_self [of seq 12] by (simp add: take_bit_eq_mask mask_eq_exp_minus_1 COUNTER_MAX_def)
  have 1: "push_bit 80 ms OR push_bit 76 7 = push_bit 76 (ms * 16 + 7)"
    using or_eq_plus [of "push_bit 76 7" 80 ms] by (simp add: push_bit_eq_mult)
  have 2: "push_bit 76 (ms * 16 + 7) OR push_bit 64 seq = push_bit 64 ((ms * 16 + 7) * 4096 + seq)"
    using or_eq_plus [of "push_bit 64 seq" 76 "ms * 16 + 7"] assms(3,4) by (simp add: push_bit_eq_mult COUNTER_MAX_def)
  have 3: "push_bit 64 ((ms * 16 + 7) * 4096 + seq) OR push_bit 62 2 = push_bit 62 (((ms * 16 + 7) * 4096 + seq) * 4 + 2)"
    using or_eq_plus [of "push_bit 62 2" 64 "(ms * 16 + 7) * 4096 + seq"] by (simp add: push_bit_eq_mult)
  have "push_bit 62 (((ms * 16 + 7) * 4096 + seq) * 4 + 2) OR r = push_bit 62 (((ms * 16 + 7) * 4096 + seq) * 4 + 2) + r"
    using assms(5,6) by (rule or_eq_plus)
  then show ?thesis unfolding ms seq 1 2 3 by (simp add: push_bit_eq_mult)
qed

lemma uuid7_spec:
  assumes "mint_wf st" "0 \<le> now" "uuid7 now bs st = (u, st')" "last_ms st' < 2 ^ 48"
  shows "mint_wf st' \<and> now \<le> last_ms st' \<and> last_ms st \<le> last_ms st' \<and>
     mint_key st + 2 ^ 64 \<le> mint_key st' \<and> mint_key st' \<le> u \<and> u < mint_key st' + 2 ^ 62"
proof -
  obtain ms seq where t: "uuid7_tick now st = ((ms, seq), st')" using assms(3) by (auto simp: uuid7_def Let_def split: prod.splits)
  note sp = uuid7_tick_spec [OF assms(1,2) t]
  then have "0 \<le> ms" "ms < 2 ^ 48" "0 \<le> seq" "seq \<le> COUNTER_MAX" using assms(2,4) by (auto simp: mint_wf_def)
  from uuid7_layout [OF this from_bytes_mask [of bs]] sp
  have "u = mint_key st' + (from_bytes_big bs AND (push_bit 62 1 - 1))"
    using assms(3) t by (simp add: uuid7_def mint_key_def Let_def)
  then show ?thesis using sp mint_key_step [of st st'] from_bytes_mask [of bs] assms(1) by auto
qed

lemma div_exact: "0 < d \<Longrightarrow> q * d \<le> u \<Longrightarrow> u < (q + 1) * d \<Longrightarrow> u div d = (q :: int)"
  using int_div_pos_eq [of u d q "u - q * d"] by (simp add: algebra_simps)

lemma mint_key_timestamp:
  assumes "mint_wf st" "mint_key st \<le> u" "u < mint_key st + 2 ^ 62"
  shows "uuid7_timestamp_ms u = ok (last_ms st)"
proof -
  have c: "0 \<le> counter st" "counter st \<le> 4095" using assms(1) by (simp_all add: mint_wf_def COUNTER_MAX_def)
  have u: "last_ms st * 2 ^ 80 + 7 * 2 ^ 76 + counter st * 2 ^ 64 + 2 * 2 ^ 62 \<le> u"
    "u < last_ms st * 2 ^ 80 + 7 * 2 ^ 76 + counter st * 2 ^ 64 + 3 * 2 ^ 62"
    using assms(2,3) by (simp_all add: mint_key_def)
  have "u div 2 ^ 80 = last_ms st" using c u by (intro div_exact) auto
  moreover have "u div 2 ^ 76 = last_ms st * 16 + 7" using c u by (intro div_exact) auto
  moreover have "u div 2 ^ 63 = (last_ms st * 2 ^ 16 + 7 * 2 ^ 12 + counter st) * 2 + 1" using c u by (intro div_exact) auto
  moreover have "u div 2 ^ 62 = (last_ms st * 2 ^ 17 + 7 * 2 ^ 13 + counter st * 2 + 1) * 2" using c u by (intro div_exact) auto
  moreover have "(last_ms st * 16 + 7) AND 15 = 7"
    using take_bit_eq_mod [of 4 "last_ms st * 16 + 7"] by (simp add: take_bit_eq_mask mask_eq_exp_minus_1)
  ultimately show ?thesis
    by (simp add: uuid7_timestamp_ms_def uuid_version_def bit_iff_odd drop_bit_eq_div)
qed

text \<open>A sequence of mints: each call's clock reading and random bytes.\<close>

primrec mint_all :: "(int \<times> byte list) list \<Rightarrow> mint_state \<Rightarrow> uuid list \<times> mint_state" where
  "mint_all [] st = ([], st)"
| "mint_all (x # xs) st =
     (let (u, st1) = uuid7 (fst x) (snd x) st; (us, st2) = mint_all xs st1 in (u # us, st2))"

lemma mint_all_last_ms:
  assumes "mint_wf st" "\<forall>x\<in>set xs. 0 \<le> fst x" "mint_all xs st = (us, st')"
  shows "last_ms st \<le> last_ms st'"
  using assms
proof (induction xs arbitrary: st us)
  case (Cons x xs)
  obtain u st1 us' where m: "uuid7 (fst x) (snd x) st = (u, st1)" "mint_all xs st1 = (us', st')"
    using Cons.prems(3) by (auto simp: Let_def split: prod.splits)
  obtain ms seq where t: "uuid7_tick (fst x) st = ((ms, seq), st1)" using m(1) by (auto simp: uuid7_def Let_def split: prod.splits)
  have "mint_wf st1" "last_ms st \<le> last_ms st1" using uuid7_tick_spec [OF Cons.prems(1) _ t] Cons.prems(2) by auto
  then show ?case using Cons.IH [OF _ _ m(2)] Cons.prems(2) by fastforce
qed simp

lemma mint_all_sorted:
  assumes "mint_wf st" "\<forall>x\<in>set xs. 0 \<le> fst x" "mint_all xs st = (us, st')" "last_ms st' < 2 ^ 48"
  shows "sorted_wrt (<) us \<and> (\<forall>u\<in>set us. mint_key st + 2 ^ 62 \<le> u) \<and>
     list_all2 (\<lambda>x u. \<exists>ms. uuid7_timestamp_ms u = ok ms \<and> fst x \<le> ms) xs us"
  using assms
proof (induction xs arbitrary: st us)
  case (Cons x xs)
  obtain u st1 us' where m: "uuid7 (fst x) (snd x) st = (u, st1)" "mint_all xs st1 = (us', st')" "us = u # us'"
    using Cons.prems(3) by (auto simp: Let_def split: prod.splits)
  obtain ms seq where t: "uuid7_tick (fst x) st = ((ms, seq), st1)" using m(1) by (auto simp: uuid7_def Let_def split: prod.splits)
  have wf1: "mint_wf st1" using uuid7_tick_spec [OF Cons.prems(1) _ t] Cons.prems(2) by auto
  then have "last_ms st1 < 2 ^ 48" using mint_all_last_ms [OF wf1 _ m(2)] Cons.prems(2,4) by auto
  then have sp: "fst x \<le> last_ms st1 \<and> mint_key st + 2 ^ 64 \<le> mint_key st1 \<and> mint_key st1 \<le> u \<and> u < mint_key st1 + 2 ^ 62"
    using uuid7_spec [OF Cons.prems(1) _ m(1)] Cons.prems(2) by auto
  have ih: "sorted_wrt (<) us' \<and> (\<forall>u\<in>set us'. mint_key st1 + 2 ^ 62 \<le> u) \<and>
     list_all2 (\<lambda>x u. \<exists>ms. uuid7_timestamp_ms u = ok ms \<and> fst x \<le> ms) xs us'"
    using Cons.IH [OF wf1 _ m(2)] Cons.prems(2,4) by auto
  have "\<forall>v\<in>set us'. u < v" "\<forall>v\<in>set us'. mint_key st + 2 ^ 62 \<le> v" "mint_key st + 2 ^ 62 \<le> u"
    using sp ih by force+
  moreover have "uuid7_timestamp_ms u = ok (last_ms st1)" using mint_key_timestamp [OF wf1] sp by blast
  ultimately show ?case using m(3) ih sp by simp
qed simp

section \<open>Properties\<close>

text \<open>
  C28. Identifiers are time-ordered: starting from the module's initial state, any sequence of mints
  yields strictly increasing UUIDs, also when the clock repeats or steps back, as long as the
  48-bit millisecond field does not overflow; and each minted identifier reads back as a version-7
  UUID whose timestamp is not before the clock reading it was minted at.
\<close>

theorem uuid7_strictly_increasing:
  assumes "\<forall>x\<in>set xs. 0 \<le> fst x" and "mint_all xs mint_init = (us, st)" and "last_ms st < 2 ^ 48"
  shows "sorted_wrt (<) us \<and>
     list_all2 (\<lambda>x u. \<exists>ms. uuid7_timestamp_ms u = ok ms \<and> fst x \<le> ms) xs us"
  using mint_all_sorted [OF _ assms] by (simp add: mint_wf_def mint_init_def COUNTER_MAX_def)

theorem uuid7_strictly_increasing_witness:
  "\<exists>us st. mint_all [(5, []), (5, [255, 1]), (3, [])] mint_init = (us, st) \<and> last_ms st = 5 \<and> sorted_wrt (<) us"
proof -
  obtain us st where m: "mint_all [(5, []), (5, [255, 1]), (3, [])] mint_init = (us, st)" by (meson surj_pair)
  then have "last_ms st = 5"
    by (simp add: uuid7_def uuid7_tick_def mint_init_def COUNTER_MAX_def Let_def split: prod.splits) auto
  then show ?thesis using uuid7_strictly_increasing [OF _ m] m by auto
qed

text \<open>
  The text of an identifier is faithful: parsing the printed form of any UUID gives it back, and
  wrapping one typed identifier in another is refused.
\<close>

theorem typed_id_roundtrip:
  assumes "0 \<le> u" "u < 2 ^ 128"
  shows "typed_id_init (ArgStr (uuid_str u)) = ok u \<and> typed_id_init (ArgUUID u) = ok u \<and>
     typed_id_init (ArgTypedId u) = raise TypeError"
  using uuid_of_str_print [OF assms] by (simp add: typed_id_init_def)

theorem typed_id_roundtrip_witness:
  "typed_id_init (ArgStr (uuid_str 77)) = ok 77"
  using typed_id_roundtrip [of 77] by simp
end
