(* ===== verification/Clique.thy ===== *)
theory Clique
  imports Signatures
begin

text \<open>
  The independence computation of \<open>src/src/tracebed/domain/state_machine.py\<close>:
  \<open>ShadowConfirmation\<close>, \<open>_compatibility_graph\<close> and \<open>independent_confirmations\<close>, the bounded
  Bron-Kerbosch search with pivoting over integer bit masks.

  The search is translated as it is written, on masks; \<open>positions\<close> reads a mask as a set of
  vertices. The nested function \<open>expand\<close> becomes a function of an explicit recursion depth
  (\<open>None\<close> when the depth is used up); a depth of one more than the number of vertices is proved
  to be enough, so \<open>independent_confirmations\<close> never fails for want of it. \<open>best\<close> and \<open>steps\<close>,
  the two \<open>nonlocal\<close> counters, are the fields of \<open>search_state\<close>.
\<close>

section \<open>Confirmations and the compatibility graph\<close>

record shadow_confirmation =
  sc_run_id :: run_id
  sc_principal_id :: principal_id
  sc_input_signature_hash :: "byte list"

definition MAX_CONFIRMATIONS_CONSIDERED :: nat where
  "MAX_CONFIRMATIONS_CONSIDERED = 256"

definition MAX_CLIQUE_SEARCH_STEPS :: nat where
  "MAX_CLIQUE_SEARCH_STEPS = 50000"

text \<open>\<open>ShadowConfirmation(...)\<close> with its \<open>__post_init__\<close> length check.\<close>

definition mk_shadow_confirmation :: "run_id \<Rightarrow> principal_id \<Rightarrow> byte list \<Rightarrow> shadow_confirmation res" where
  "mk_shadow_confirmation r p s =
     (if length s \<noteq> SIG_HASH_LEN then raise ValueError
      else ok \<lparr>sc_run_id = r, sc_principal_id = p, sc_input_signature_hash = s\<rparr>)"

definition wf_confirmation :: "shadow_confirmation \<Rightarrow> bool" where
  "wf_confirmation c \<longleftrightarrow> length (sc_input_signature_hash c) = SIG_HASH_LEN"

lemma mk_shadow_confirmation_wf: "mk_shadow_confirmation r p s = ok c \<Longrightarrow> wf_confirmation c"
  by (auto simp: mk_shadow_confirmation_def wf_confirmation_def split: if_splits)

text \<open>The inner loop: row \<open>i\<close> against the later positions \<open>js\<close>.\<close>

fun graph_row :: "shadow_confirmation list \<Rightarrow> nat \<Rightarrow> nat list \<Rightarrow> mask list \<Rightarrow> mask list res" where
  "graph_row cs i [] adj = ok adj"
| "graph_row cs i (j # js) adj =
     (let a = cs ! i; b = cs ! j in
      if sc_run_id a = sc_run_id b then graph_row cs i js adj
      else if sc_principal_id a = sc_principal_id b then graph_row cs i js adj
      else bind_res (same_cluster (sc_input_signature_hash a) (sc_input_signature_hash b)) (\<lambda>same.
        if same then graph_row cs i js adj
        else let adj1 = adj[i := adj ! i OR push_bit j 1];
                 adj2 = adj1[j := adj1 ! j OR push_bit i 1]
             in graph_row cs i js adj2))"

fun graph_rows :: "shadow_confirmation list \<Rightarrow> nat list \<Rightarrow> mask list \<Rightarrow> mask list res" where
  "graph_rows cs [] adj = ok adj"
| "graph_rows cs (i # is) adj =
     bind_res (graph_row cs i [i + 1..<length cs] adj) (graph_rows cs is)"

definition compatibility_graph :: "shadow_confirmation list \<Rightarrow> mask list res" where
  "compatibility_graph cs = graph_rows cs [0..<length cs] (replicate (length cs) 0)"

section \<open>The bounded search\<close>

record search_state =
  best :: nat
  steps :: nat

text \<open>The pivot loop: the first vertex of maximal degree in \<open>candidates\<close>.\<close>

fun pick_pivot :: "mask list \<Rightarrow> mask \<Rightarrow> nat list \<Rightarrow> int \<Rightarrow> int \<Rightarrow> int" where
  "pick_pivot adj cand [] pivot pivot_degree = pivot"
| "pick_pivot adj cand (v # vs) pivot pivot_degree =
     (let degree = int (bit_count (cand AND adj ! v))
      in if degree > pivot_degree then pick_pivot adj cand vs (int v) degree
         else pick_pivot adj cand vs pivot pivot_degree)"

text \<open>The branch loop; \<open>rec\<close> is the recursive call of \<open>expand\<close>.\<close>

primrec branch_loop ::
  "(nat \<Rightarrow> mask \<Rightarrow> mask \<Rightarrow> search_state \<Rightarrow> (bool \<times> search_state) option) \<Rightarrow> mask list \<Rightarrow> nat \<Rightarrow> nat list \<Rightarrow>
   mask \<Rightarrow> mask \<Rightarrow> search_state \<Rightarrow> (bool \<times> search_state) option" where
  "branch_loop rec adj sz [] cand excl st = Some (False, st)"
| "branch_loop rec adj sz (v # vs) cand excl st =
     (case rec (sz + 1) (cand AND adj ! v) (excl AND adj ! v) st of
        None \<Rightarrow> None
      | Some (True, st') \<Rightarrow> Some (True, st')
      | Some (False, st') \<Rightarrow>
          branch_loop rec adj sz vs (cand XOR push_bit v 1) (excl OR push_bit v 1) st')"

primrec expand ::
  "nat \<Rightarrow> mask list \<Rightarrow> int \<Rightarrow> nat \<Rightarrow> mask \<Rightarrow> mask \<Rightarrow> search_state \<Rightarrow> (bool \<times> search_state) option" where
  "expand 0 adj target sz cand excl st = None"
| "expand (Suc depth) adj target sz cand excl st =
     (if cand = 0 \<and> excl = 0 then
        (let b = max (best st) sz in Some (int b \<ge> target, st\<lparr>best := b\<rparr>))
      else
        (let st1 = st\<lparr>steps := steps st + 1\<rparr> in
         if steps st1 > MAX_CLIQUE_SEARCH_STEPS then Some (True, st1)
         else if sz + bit_count cand \<le> best st1 then Some (False, st1)
         else
           (let pivot = pick_pivot adj cand (bits_of (cand OR excl)) (- 1) (- 1);
                branch = (if pivot \<ge> 0 then cand AND NOT (adj ! nat pivot) else cand)
            in branch_loop (expand depth adj target) adj sz (bits_of branch) cand excl st1)))"

definition run_search :: "mask list \<Rightarrow> int \<Rightarrow> nat \<Rightarrow> (bool \<times> search_state) option" where
  "run_search adj target n =
     expand (Suc n) adj target 0 (push_bit n 1 - 1) 0 \<lparr>best = 0, steps = 0\<rparr>"

definition independent_confirmations :: "shadow_confirmation list \<Rightarrow> int option \<Rightarrow> nat res" where
  "independent_confirmations confirmations at_least =
     (let considered = take MAX_CONFIRMATIONS_CONSIDERED confirmations;
          n = length considered
      in if n = 0 then ok 0
         else bind_res (compatibility_graph considered) (\<lambda>adj.
           let target = (case at_least of None \<Rightarrow> int n | Some k \<Rightarrow> min k (int n))
           in case run_search adj target n of
                None \<Rightarrow> raise RecursionError
              | Some (_, st) \<Rightarrow> ok (best st)))"

section \<open>Correctness of the search on an abstract graph\<close>

lemma pick_pivot_max:
  "(pick_pivot adj cand vs p d = p \<and> (\<forall>v\<in>set vs. int (bit_count (cand AND adj ! v)) \<le> d)) \<or>
   (\<exists>w\<in>set vs. pick_pivot adj cand vs p d = int w \<and> d < int (bit_count (cand AND adj ! w)) \<and>
      (\<forall>v\<in>set vs. bit_count (cand AND adj ! v) \<le> bit_count (cand AND adj ! w)))"
proof (induction vs arbitrary: p d)
  case Nil
  then show ?case by simp
next
  case (Cons x xs)
  let ?g = "\<lambda>v. int (bit_count (cand AND adj ! v))"
  show ?case
  proof (cases "d < ?g x")
    case True
    then show ?thesis using Cons [of "int x" "?g x"] by (auto simp: Let_def)
  next
    case False
    then show ?thesis using Cons [of p d] by (auto simp: Let_def)
  qed
qed

lemma pick_pivot_start:
  assumes "vs \<noteq> []"
  obtains w where "w \<in> set vs" "pick_pivot adj cand vs (- 1) (- 1) = int w"
    "\<forall>v\<in>set vs. bit_count (cand AND adj ! v) \<le> bit_count (cand AND adj ! w)"
proof -
  obtain x where x: "x \<in> set vs" using assms by (cases vs) auto
  then have "\<not> (\<forall>v\<in>set vs. int (bit_count (cand AND adj ! v)) \<le> - 1)" by force
  with pick_pivot_max [of adj cand vs "- 1" "- 1"] that show thesis by blast
qed

lemma expand_branch:
  assumes "\<not> (cand = 0 \<and> excl = 0)" "steps st < MAX_CLIQUE_SEARCH_STEPS" "best st < sz + bit_count cand"
    and "pick_pivot adj cand (bits_of (cand OR excl)) (- 1) (- 1) = int w"
  shows "expand (Suc depth) adj target sz cand excl st =
    branch_loop (expand depth adj target) adj sz (bits_of (cand AND NOT (adj ! w))) cand excl (st\<lparr>steps := steps st + 1\<rparr>)"
  using assms by (auto simp: Let_def)

text \<open>The interface the search relies on: adjacency masks of a symmetric loop-free graph.\<close>

locale independence_graph =
  fixes adj :: "mask list"
  assumes adj_nonneg: "i < length adj \<Longrightarrow> 0 \<le> adj ! i"
    and adj_range: "i < length adj \<Longrightarrow> bit (adj ! i) j \<Longrightarrow> j < length adj"
    and adj_sym: "i < length adj \<Longrightarrow> bit (adj ! i) j \<Longrightarrow> bit (adj ! j) i"
    and adj_irrefl: "i < length adj \<Longrightarrow> \<not> bit (adj ! i) i"
begin

definition clique :: "nat set \<Rightarrow> bool" where
  "clique K \<longleftrightarrow> K \<subseteq> {..<length adj} \<and> (\<forall>u\<in>K. \<forall>v\<in>K. u \<noteq> v \<longrightarrow> v \<in> positions (adj ! u))"

definition maximal :: "nat set \<Rightarrow> bool" where
  "maximal K \<longleftrightarrow> clique K \<and> (\<forall>v. v \<notin> K \<longrightarrow> \<not> clique (insert v K))"

definition frame :: "nat set \<Rightarrow> mask \<Rightarrow> mask \<Rightarrow> nat \<Rightarrow> bool" where
  "frame R P X sz \<longleftrightarrow> clique R \<and> card R = sz \<and> 0 \<le> P \<and> 0 \<le> X \<and>
     positions P \<union> positions X \<subseteq> {..<length adj} \<and>
     (\<forall>v \<in> positions P \<union> positions X. \<forall>u\<in>R. v \<in> positions (adj ! u))"

definition post :: "int \<Rightarrow> (nat set \<Rightarrow> bool) \<Rightarrow> search_state \<Rightarrow> bool \<Rightarrow> search_state \<Rightarrow> bool" where
  "post target Q st ab st' \<longleftrightarrow>
     best st \<le> best st' \<and> steps st \<le> steps st' \<and>
     (best st' = best st \<or> (\<exists>K. clique K \<and> card K = best st')) \<and>
     (ab \<longrightarrow> MAX_CLIQUE_SEARCH_STEPS < steps st' \<or> target \<le> int (best st')) \<and>
     (\<not> ab \<longrightarrow> (\<forall>K. maximal K \<and> Q K \<longrightarrow> card K \<le> best st'))"

lemma clique_finite: "clique K \<Longrightarrow> finite K"
  by (auto simp: clique_def intro: finite_subset)

lemma clique_card_le: "clique K \<Longrightarrow> card K \<le> length adj"
  by (metis clique_def card_lessThan card_mono finite_lessThan)

lemma adj_positions_irrefl: "v < length adj \<Longrightarrow> v \<notin> positions (adj ! v)"
  by (simp add: mem_positions adj_irrefl)

lemma adj_positions_sym: "u < length adj \<Longrightarrow> v \<in> positions (adj ! u) \<Longrightarrow> u \<in> positions (adj ! v)"
  by (simp add: mem_positions adj_sym)

lemma frame_disjoint:
  assumes "frame R P X sz" "v \<in> positions P \<union> positions X"
  shows "v \<notin> R"
  using assms adj_positions_irrefl unfolding frame_def by blast

lemma clique_insert:
  assumes "clique R" "v < length adj" "\<forall>u\<in>R. v \<in> positions (adj ! u)"
  shows "clique (insert v R)"
  using assms adj_positions_sym unfolding clique_def by blast

lemma frame_insert:
  assumes fr: "frame R P X sz" and v: "v \<in> positions P"
  shows "frame (insert v R) (P AND adj ! v) (X AND adj ! v) (sz + 1)"
proof -
  from fr v have vn: "v < length adj" and R: "clique R" and adjR: "\<forall>u\<in>R. v \<in> positions (adj ! u)"
    by (auto simp: frame_def)
  have "v \<notin> R" using frame_disjoint [OF fr] v by blast
  then have "card (insert v R) = sz + 1" using fr clique_finite [OF R] by (simp add: frame_def)
  then show ?thesis
    using fr clique_insert [OF R vn adjR] adj_nonneg [OF vn] unfolding frame_def
    by (auto simp: positions_and)
qed

lemma frame_next:
  assumes fr: "frame R P X sz" and v: "v \<in> positions P"
  shows "frame R (P XOR 2 ^ v) (X OR 2 ^ v) sz"
  using fr v unfolding frame_def by (auto simp: positions_xor_exp positions_or_exp)

lemma frame_card_less:
  assumes "frame R P X sz" "v \<in> positions P"
  shows "card (positions (P AND adj ! v)) < card (positions P)"
proof -
  have "finite (positions P)" "v < length adj" using assms by (auto simp: frame_def finite_positions)
  then show ?thesis using assms adj_positions_irrefl [of v]
    by (intro psubset_card_mono) (auto simp: positions_and)
qed

lemma post_trans:
  assumes "post target Q1 st False st1" "post target Q2 st1 ab st2"
    and "\<And>K. maximal K \<Longrightarrow> Q K \<Longrightarrow> Q1 K \<or> Q2 K"
  shows "post target Q st ab st2"
  using assms unfolding post_def by (auto intro: order_trans)

lemma post_abort: "post target Q1 st True st1 \<Longrightarrow> post target Q st True st1"
  by (auto simp: post_def)

lemma branch_loop_post:
  assumes rec: "\<And>R P X sz st. frame R P X sz \<Longrightarrow> card (positions P) < depth \<Longrightarrow>
      \<exists>ab st'. rec sz P X st = Some (ab, st') \<and> post target (\<lambda>K. R \<subseteq> K \<and> K \<subseteq> R \<union> positions P) st ab st'"
    and "frame R P X sz" "card (positions P) \<le> depth" "set vs \<subseteq> positions P" "distinct vs"
  shows "\<exists>ab st'. branch_loop rec adj sz vs P X st = Some (ab, st') \<and>
           post target (\<lambda>K. R \<subseteq> K \<and> K \<subseteq> R \<union> positions P \<and> K \<inter> set vs \<noteq> {}) st ab st'"
  using assms(2-)
proof (induction vs arbitrary: P X st)
  case Nil
  show ?case by (intro exI [of _ False] exI [of _ st]) (simp add: post_def)
next
  case (Cons v vs)
  then have v: "v \<in> positions P" and fr: "frame R P X sz" by auto
  have lt: "card (positions (P AND adj ! v)) < depth"
    using frame_card_less [OF fr v] Cons.prems by linarith
  obtain ab1 st1 where r1: "rec (sz + 1) (P AND adj ! v) (X AND adj ! v) st = Some (ab1, st1)"
    and p1: "post target (\<lambda>K. insert v R \<subseteq> K \<and> K \<subseteq> insert v R \<union> positions (P AND adj ! v)) st ab1 st1"
    using rec [OF frame_insert [OF fr v] lt] by blast
  show ?case
  proof (cases ab1)
    case True
    have "post target (\<lambda>K. R \<subseteq> K \<and> K \<subseteq> R \<union> positions P \<and> K \<inter> set (v # vs) \<noteq> {}) st True st1"
      using p1 True post_abort by simp
    then show ?thesis using r1 True by (intro exI [of _ True] exI [of _ st1]) simp
  next
    case False
    have pos: "positions (P XOR 2 ^ v) = positions P - {v}" using v by (rule positions_xor_exp)
    have "finite (positions P)" using fr by (simp add: frame_def finite_positions)
    then have "card (positions (P XOR 2 ^ v)) \<le> depth"
      using Cons.prems(2) unfolding pos by (meson card_Diff1_le le_trans)
    moreover have "set vs \<subseteq> positions (P XOR 2 ^ v)" "distinct vs"
      using Cons.prems unfolding pos by auto
    ultimately obtain ab2 st2
      where r2: "branch_loop rec adj sz vs (P XOR 2 ^ v) (X OR 2 ^ v) st1 = Some (ab2, st2)"
      and p2: "post target (\<lambda>K. R \<subseteq> K \<and> K \<subseteq> R \<union> positions (P XOR 2 ^ v) \<and> K \<inter> set vs \<noteq> {}) st1 ab2 st2"
      using Cons.IH [OF frame_next [OF fr v]] by blast
    have split: "insert v R \<subseteq> K \<and> K \<subseteq> insert v R \<union> positions (P AND adj ! v) \<or>
        R \<subseteq> K \<and> K \<subseteq> R \<union> positions (P XOR 2 ^ v) \<and> K \<inter> set vs \<noteq> {}"
      if "maximal K" "R \<subseteq> K \<and> K \<subseteq> R \<union> positions P \<and> K \<inter> set (v # vs) \<noteq> {}" for K
      using that unfolding pos positions_and maximal_def clique_def by auto
    have "post target (\<lambda>K. R \<subseteq> K \<and> K \<subseteq> R \<union> positions P \<and> K \<inter> set (v # vs) \<noteq> {}) st ab2 st2"
      using p1 False by (intro post_trans [OF _ p2 split]) simp_all
    then show ?thesis using r1 r2 False by simp
  qed
qed

text \<open>Every maximal clique of the frame meets the branch set of any pivot.\<close>

lemma branch_covers:
  assumes fr: "frame R P X sz" and w: "w \<in> positions P \<union> positions X"
    and K: "maximal K" "R \<subseteq> K" "K \<subseteq> R \<union> positions P"
  shows "K \<inter> positions (P AND NOT (adj ! w)) \<noteq> {}"
proof
  assume none: "K \<inter> positions (P AND NOT (adj ! w)) = {}"
  have wn: "w < length adj" using fr w by (auto simp: frame_def)
  have sub: "K - R \<subseteq> positions (adj ! w)" using none K(3) by (auto simp: positions_and_not)
  then have "w \<notin> K" using frame_disjoint [OF fr w] adj_positions_irrefl [OF wn] by blast
  moreover have "\<forall>u\<in>K. w \<in> positions (adj ! u)"
    using sub fr w K adj_positions_sym [OF wn] unfolding frame_def by blast
  ultimately show False using K(1) clique_insert [OF _ wn] unfolding maximal_def by blast
qed

lemma expand_post:
  assumes "frame R P X sz" "card (positions P) < depth"
  shows "\<exists>ab st'. expand depth adj target sz P X st = Some (ab, st') \<and>
           post target (\<lambda>K. R \<subseteq> K \<and> K \<subseteq> R \<union> positions P) st ab st'"
  using assms
proof (induction depth arbitrary: R P X sz st)
  case 0
  then show ?case by simp
next
  case (Suc depth)
  let ?Q = "\<lambda>K. R \<subseteq> K \<and> K \<subseteq> R \<union> positions P"
  let ?st1 = "st\<lparr>steps := steps st + 1\<rparr>"
  have fr: "frame R P X sz" and R: "clique R" "card R = sz" and nn: "0 \<le> P" "0 \<le> X"
    using Suc.prems by (auto simp: frame_def)
  have bound: "card K \<le> sz + bit_count P" if "?Q K" for K
  proof -
    have "card K \<le> card (R \<union> positions P)"
      using that nn clique_finite [OF R(1)] by (intro card_mono) (auto simp: finite_positions)
    also have "\<dots> \<le> sz + bit_count P" using R(2) nn by (simp add: bit_count_card) (metis card_Un_le)
    finally show ?thesis .
  qed
  consider (leaf) "P = 0 \<and> X = 0" | (steps) "\<not> (P = 0 \<and> X = 0)" "MAX_CLIQUE_SEARCH_STEPS < steps ?st1"
    | (cut) "\<not> (P = 0 \<and> X = 0)" "\<not> MAX_CLIQUE_SEARCH_STEPS < steps ?st1" "sz + bit_count P \<le> best st"
    | (branch) "\<not> (P = 0 \<and> X = 0)" "\<not> MAX_CLIQUE_SEARCH_STEPS < steps ?st1" "\<not> sz + bit_count P \<le> best st"
    by blast
  then show ?case
  proof cases
    case leaf
    have "card K \<le> max (best st) sz" if "?Q K" for K
      using bound [OF that] leaf by (simp add: bit_count.simps [of 0])
    then show ?thesis using leaf R by (auto simp: post_def max_def)
  next
    case steps
    then show ?thesis by (auto simp: post_def)
  next
    case cut
    then have "card K \<le> best st" if "?Q K" for K using bound [OF that] by linarith
    then show ?thesis using cut by (auto simp: post_def)
  next
    case branch
    let ?vs = "bits_of (P OR X)"
    have nn': "0 \<le> P OR X" using nn by simp
    have "positions (P OR X) \<noteq> {}" using branch(1) by (auto simp: positions_or positions_empty_iff)
    then have "?vs \<noteq> []" using set_bits_of [OF nn'] by auto
    then obtain w where w: "w \<in> set ?vs" "pick_pivot adj P ?vs (- 1) (- 1) = int w"
      using pick_pivot_start by metis
    then have wP: "w \<in> positions P \<union> positions X" using set_bits_of [OF nn'] by (simp add: positions_or)
    let ?B = "P AND NOT (adj ! w)"
    have nB: "0 \<le> ?B" using nn by simp
    have B: "set (bits_of ?B) \<subseteq> positions P" "distinct (bits_of ?B)" "set (bits_of ?B) = positions ?B"
      using bits_of_positions [OF nB] by (auto simp: positions_and_not)
    have "card (positions P) \<le> depth" using Suc.prems(2) by simp
    from branch_loop_post [where depth = depth and rec = "expand depth adj target", OF Suc.IH fr this B(1,2)]
    obtain ab st' where loop: "branch_loop (expand depth adj target) adj sz (bits_of ?B) P X ?st1 = Some (ab, st')"
      and p: "post target (\<lambda>K. R \<subseteq> K \<and> K \<subseteq> R \<union> positions P \<and> K \<inter> set (bits_of ?B) \<noteq> {}) ?st1 ab st'"
      by blast
    have "post target ?Q st ab st'"
      using p branch_covers [OF fr wP] unfolding B(3) post_def by auto
    then show ?thesis using branch loop w(2) by (auto simp: Let_def)
  qed
qed

lemma clique_extends:
  assumes "clique K"
  obtains M where "maximal M" "K \<subseteq> M"
proof -
  let ?P = "\<lambda>M. clique M \<and> K \<subseteq> M"
  obtain M where M: "?P M" "\<forall>N. ?P N \<longrightarrow> card N \<le> card M"
    using ex_has_greatest_nat [of ?P K card "Suc (length adj)"] assms clique_card_le
    by (metis (no_types, lifting) le_imp_less_Suc order_refl)
  have "\<not> clique (insert v M)" if "v \<notin> M" for v
    using M that clique_finite [of M] by (metis card_insert_disjoint insertI2 not_less_eq_eq order_refl subsetD subsetI)
  then show thesis using M that unfolding maximal_def by blast
qed

lemma frame_start: "frame {} (push_bit (length adj) 1 - 1) 0 0"
  by (auto simp: frame_def clique_def mask_simps)

lemma run_search_post:
  "\<exists>ab st. run_search adj target (length adj) = Some (ab, st) \<and>
     post target (\<lambda>K. K \<subseteq> {..<length adj}) \<lparr>best = 0, steps = 0\<rparr> ab st"
  using expand_post [OF frame_start, of "Suc (length adj)" target "\<lparr>best = 0, steps = 0\<rparr>"]
  by (simp add: run_search_def mask_simps)

lemma run_search_sound:
  assumes "run_search adj target (length adj) = Some (ab, st)"
  shows "\<exists>K. clique K \<and> card K = best st"
proof -
  have "clique {}" by (simp add: clique_def)
  then show ?thesis using run_search_post [of target] assms by (auto simp: post_def intro: exI [of _ "{}"])
qed

lemma run_search_complete:
  assumes "run_search adj target (length adj) = Some (ab, st)"
    and "steps st \<le> MAX_CLIQUE_SEARCH_STEPS" and "clique K"
  shows "target \<le> int (best st) \<or> card K \<le> best st"
proof -
  obtain M where M: "maximal M" "K \<subseteq> M" using clique_extends [OF assms(3)] .
  then have sub: "M \<subseteq> {..<length adj}" "finite M" by (auto simp: maximal_def clique_def intro: finite_subset)
  have "card K \<le> card M" using M(2) sub(2) by (rule card_mono [rotated])
  moreover have "target \<le> int (best st) \<or> card M \<le> best st"
    using run_search_post [of target] assms(1,2) M(1) sub(1) by (auto simp: post_def)
  ultimately show ?thesis by linarith
qed

text \<open>
  With nothing excluded the first descent always ends in a leaf: it needs one step per remaining
  candidate, so thresholds one above the current size never meet the step budget.
\<close>

lemma expand_descends:
  assumes "frame R P 0 sz" "card (positions P) < depth" "best st \<le> sz"
    and "steps st + card (positions P) \<le> MAX_CLIQUE_SEARCH_STEPS"
    and "target \<le> int sz + (if P = 0 then 0 else 1)"
  shows "\<exists>st'. expand depth adj target sz P 0 st = Some (True, st') \<and> target \<le> int (best st')"
  using assms
proof (induction depth arbitrary: R P sz st)
  case 0
  then show ?case by simp
next
  case (Suc depth)
  have nn: "0 \<le> P" and fr: "frame R P 0 sz" using Suc.prems by (auto simp: frame_def)
  show ?case
  proof (cases "P = 0")
    case True
    then show ?thesis using Suc.prems by (intro exI) auto
  next
    case False
    let ?st1 = "st\<lparr>steps := steps st + 1\<rparr>"
    have fin: "finite (positions P)" using nn by (rule finite_positions)
    have ne: "positions P \<noteq> {}" using False by (simp add: positions_empty_iff)
    then have c: "0 < card (positions P)" using fin by (simp add: card_gt_0_iff)
    have "bits_of P \<noteq> []" using set_bits_of [OF nn] ne by auto
    then obtain w where w: "w \<in> set (bits_of P)" "pick_pivot adj P (bits_of P) (- 1) (- 1) = int w"
      using pick_pivot_start by metis
    have wP: "w \<in> positions P" using w(1) set_bits_of [OF nn] by simp
    let ?B = "P AND NOT (adj ! w)"
    have nB: "0 \<le> ?B" using nn by simp
    have "w < length adj" using fr wP by (auto simp: frame_def)
    then have "w \<in> positions ?B" using wP adj_positions_irrefl by (simp add: positions_and_not)
    then obtain v vs where v: "bits_of ?B = v # vs" using set_bits_of [OF nB] by (cases "bits_of ?B") auto
    then have vP: "v \<in> positions P" using set_bits_of [OF nB] by (auto simp: positions_and_not)
    have lt: "card (positions (P AND adj ! v)) < card (positions P)" by (rule frame_card_less [OF fr vP])
    have "\<exists>st'. expand depth adj target (sz + 1) (P AND adj ! v) 0 ?st1 = Some (True, st') \<and> target \<le> int (best st')"
      using frame_insert [OF fr vP] lt Suc.prems by (intro Suc.IH) (auto split: if_splits)
    then obtain st' where
      "expand depth adj target (sz + 1) (P AND adj ! v) 0 ?st1 = Some (True, st')" "target \<le> int (best st')" by blast
    then show ?thesis
      using False Suc.prems(3,4) c w(2) v nn by (auto simp: Let_def bit_count_card)
  qed
qed

lemma branch_loop_finds_edge:
  assumes "frame {} P X 0" "card (positions P) \<le> depth" "positions P \<union> positions X = {..<length adj}"
    and "\<forall>x \<in> positions X. positions (adj ! x) = {}" "set vs \<subseteq> positions P" "distinct vs"
    and "\<exists>v \<in> set vs. positions (adj ! v) \<noteq> {}" "best st \<le> 1"
    and "steps st + length adj \<le> MAX_CLIQUE_SEARCH_STEPS + 1"
  shows "\<exists>st'. branch_loop (expand depth adj 2) adj 0 vs P X st = Some (True, st') \<and> 2 \<le> best st'"
  using assms
proof (induction vs arbitrary: P X st)
  case Nil
  then show ?case by simp
next
  case (Cons v vs)
  have fr: "frame {} P X 0" and v: "v \<in> positions P" using Cons.prems by auto
  have fin: "finite (positions P)" using fr by (simp add: frame_def finite_positions)
  have vn: "v < length adj" using fr v by (auto simp: frame_def)
  have d: "0 < depth" using Cons.prems(2) v fin by (metis card_gt_0_iff empty_iff less_le_trans)
  show ?case
  proof (cases "positions (adj ! v) = {}")
    case True
    then have "adj ! v = 0" by (simp add: positions_empty_iff)
    then have rec: "expand depth adj 2 1 (P AND adj ! v) (X AND adj ! v) st = Some (False, st\<lparr>best := max (best st) 1\<rparr>)"
      using d Cons.prems(8) by (cases depth) auto
    have "\<exists>st'. branch_loop (expand depth adj 2) adj 0 vs (P XOR 2 ^ v) (X OR 2 ^ v) (st\<lparr>best := max (best st) 1\<rparr>)
        = Some (True, st') \<and> 2 \<le> best st'"
    proof (rule Cons.IH)
      show "card (positions (P XOR 2 ^ v)) \<le> depth"
        using Cons.prems(2) v fin by (metis card_Diff1_le le_trans positions_xor_exp)
    qed (use Cons.prems True v frame_next [OF fr v] in \<open>auto simp: positions_xor_exp positions_or_exp\<close>)
    then show ?thesis using rec by simp
  next
    case False
    have sub: "positions (adj ! v) \<subseteq> positions P"
    proof
      fix u assume u: "u \<in> positions (adj ! v)"
      then have "u < length adj" "v \<in> positions (adj ! u)"
        using adj_range [OF vn] adj_positions_sym [OF vn] by (auto simp: mem_positions)
      then show "u \<in> positions P" using Cons.prems(3,4) by blast
    qed
    have "positions (X AND adj ! v) = {}"
      using Cons.prems(4) adj_positions_sym [OF vn] by (auto simp: positions_and)
    then have X0: "X AND adj ! v = 0" by (simp only: positions_empty_iff)
    have PN: "positions (P AND adj ! v) = positions (adj ! v)" using sub by (auto simp: positions_and)
    then have P0: "P AND adj ! v \<noteq> 0" using False by (metis positions_0)
    have "positions (adj ! v) \<subset> {..<length adj}"
      using vn adj_positions_irrefl [OF vn] sub Cons.prems(3) by blast
    then have cl: "card (positions (P AND adj ! v)) < length adj"
      unfolding PN by (metis card_lessThan finite_lessThan psubset_card_mono)
    have "card (positions (P AND adj ! v)) < depth"
      using frame_card_less [OF fr v] Cons.prems(2) by linarith
    then have "\<exists>st'. expand depth adj 2 (0 + 1) (P AND adj ! v) 0 st = Some (True, st') \<and> 2 \<le> int (best st')"
      using frame_insert [OF fr v] P0 cl Cons.prems(8,9) unfolding X0
      by (intro expand_descends) auto
    then show ?thesis using X0 by auto
  qed
qed

lemma run_search_pair:
  assumes edge: "u < length adj" "positions (adj ! u) \<noteq> {}" and small: "length adj \<le> MAX_CLIQUE_SEARCH_STEPS"
  shows "\<exists>st. run_search adj 2 (length adj) = Some (True, st) \<and> 2 \<le> best st"
proof -
  let ?n = "length adj" let ?P = "push_bit ?n 1 - 1 :: mask"
  let ?st1 = "\<lparr>best = 0, steps = 1\<rparr>"
  have fr: "frame {} ?P 0 0" by (rule frame_start)
  have nn: "0 \<le> ?P" using fr by (simp add: frame_def)
  have P: "positions ?P = {..<?n}" by (simp add: mask_simps)
  have P0: "?P \<noteq> 0" using P edge(1) by (metis empty_iff lessThan_iff positions_0)
  have bs: "set (bits_of ?P) = {..<?n}" using set_bits_of [OF nn] P by simp
  then have "bits_of ?P \<noteq> []" using edge(1) by (metis empty_iff lessThan_iff list.set(1))
  then obtain w where w: "w \<in> set (bits_of ?P)" "pick_pivot adj ?P (bits_of ?P) (- 1) (- 1) = int w"
    "\<forall>v\<in>set (bits_of ?P). bit_count (?P AND adj ! v) \<le> bit_count (?P AND adj ! w)"
    by (rule pick_pivot_start)
  have wn: "w < ?n" using w(1) bs by simp
  have deg: "bit_count (?P AND adj ! v) = card (positions (adj ! v))" if "v < ?n" for v
  proof -
    have "positions (?P AND adj ! v) = positions (adj ! v)"
      using P adj_range [OF that] by (auto simp: positions_and mem_positions)
    moreover have "0 \<le> ?P AND adj ! v" using nn by simp
    ultimately show ?thesis using bit_count_card by metis
  qed
  have "0 < card (positions (adj ! u))"
    using edge finite_positions [OF adj_nonneg [OF edge(1)]] by (simp add: card_gt_0_iff)
  then have wN: "positions (adj ! w) \<noteq> {}" using w(3) deg edge(1) wn bs by (metis card.empty leD lessThan_iff)
  let ?B = "?P AND NOT (adj ! w)"
  have nB: "0 \<le> ?B" using nn by simp
  have wB: "w \<in> set (bits_of ?B)" using set_bits_of [OF nB] wn P adj_positions_irrefl [OF wn] by (simp add: positions_and_not)
  have "\<exists>st'. branch_loop (expand ?n adj 2) adj 0 (bits_of ?B) ?P 0 ?st1 = Some (True, st') \<and> 2 \<le> best st'"
    using fr P wN wB small bits_of_positions [OF nB]
    by (intro branch_loop_finds_edge) (auto simp: positions_0 positions_and_not)
  moreover have "0 < bit_count ?P" using bit_count_card [OF nn] P wn by (metis card_lessThan gr0I not_less_zero)
  then have "expand (Suc ?n) adj 2 0 ?P 0 \<lparr>best = 0, steps = 0\<rparr> =
      branch_loop (expand ?n adj 2) adj 0 (bits_of ?B) ?P 0 ?st1"
    using P0 w(2) by (subst expand_branch [of ?P 0 _ _ adj w]) (simp_all add: MAX_CLIQUE_SEARCH_STEPS_def del: push_bit_of_1)
  ultimately show ?thesis by (simp only: run_search_def)
qed

lemma run_search_single:
  assumes "0 < length adj" "length adj \<le> MAX_CLIQUE_SEARCH_STEPS"
  shows "\<exists>st. run_search adj 1 (length adj) = Some (True, st) \<and> 1 \<le> best st"
proof -
  have P: "positions (push_bit (length adj) 1 - 1) = {..<length adj}" by (simp add: mask_simps)
  then have P0: "push_bit (length adj) 1 - 1 \<noteq> (0 :: mask)" using assms(1) by (metis empty_iff lessThan_iff positions_0)
  have "\<exists>st. run_search adj 1 (length adj) = Some (True, st) \<and> 1 \<le> int (best st)"
    unfolding run_search_def using P P0 assms frame_start by (intro expand_descends) auto
  then show ?thesis by auto
qed

end

section \<open>The compatibility graph\<close>

text \<open>Pairwise independence: no shared run, no shared principal, no shared signature cluster.\<close>

definition compatible :: "shadow_confirmation \<Rightarrow> shadow_confirmation \<Rightarrow> bool" where
  "compatible a b \<longleftrightarrow> sc_run_id a \<noteq> sc_run_id b \<and> sc_principal_id a \<noteq> sc_principal_id b \<and>
     SAME_CLUSTER_MAX_HAMMING < sig_distance (sc_input_signature_hash a) (sc_input_signature_hash b)"

lemma compatible_commute: "compatible a b \<longleftrightarrow> compatible b a"
  by (auto simp: compatible_def sig_distance_commute)

lemma compatible_irrefl [simp]: "\<not> compatible a a"
  by (simp add: compatible_def)

definition graph_inv :: "nat \<Rightarrow> (nat \<times> nat) set \<Rightarrow> mask list \<Rightarrow> bool" where
  "graph_inv n E adj \<longleftrightarrow> length adj = n \<and>
     (\<forall>i<n. 0 \<le> adj ! i \<and> (\<forall>j. bit (adj ! i) j \<longleftrightarrow> (i, j) \<in> E))"

lemma graph_inv_add:
  assumes "graph_inv n E adj" "i < n" "j < n" "i \<noteq> j"
    and "adj1 = adj[i := adj ! i OR 2 ^ j]"
  shows "graph_inv n (E \<union> {(i, j), (j, i)}) (adj1[j := adj1 ! j OR 2 ^ i])"
  using assms unfolding graph_inv_def
  by (auto simp: nth_list_update bit_or_iff bit_exp_iff)

definition row_edges :: "shadow_confirmation list \<Rightarrow> nat \<Rightarrow> nat set \<Rightarrow> (nat \<times> nat) set" where
  "row_edges cs i J = (\<Union>j \<in> {j \<in> J. compatible (cs ! i) (cs ! j)}. {(i, j), (j, i)})"

lemma row_edges_insert:
  "row_edges cs i (insert j J) =
     (if compatible (cs ! i) (cs ! j) then {(i, j), (j, i)} else {}) \<union> row_edges cs i J"
  by (auto simp: row_edges_def)

lemma graph_row_inv:
  assumes "graph_row cs i js adj = ok adj'" "graph_inv n E adj" "i < n" "set js \<subseteq> {..<n} - {i}"
  shows "graph_inv n (E \<union> row_edges cs i (set js)) adj'"
  using assms
proof (induction js arbitrary: adj E)
  case Nil
  then show ?case by (simp add: row_edges_def)
next
  case (Cons j js)
  show ?case
  proof (cases "compatible (cs ! i) (cs ! j)")
    case True
    then have len: "length (sc_input_signature_hash (cs ! i)) = SIG_HASH_LEN"
        "length (sc_input_signature_hash (cs ! j)) = SIG_HASH_LEN"
      using Cons.prems(1) by (auto simp: compatible_def Let_def same_cluster_eq split: if_splits)
    let ?adj1 = "adj[i := adj ! i OR 2 ^ j]"
    have "graph_row cs i js (?adj1[j := ?adj1 ! j OR 2 ^ i]) = ok adj'"
      using Cons.prems(1) True len by (simp add: compatible_def Let_def same_cluster_eq)
    moreover have "graph_inv n (E \<union> {(i, j), (j, i)}) (?adj1[j := ?adj1 ! j OR 2 ^ i])"
      using Cons.prems by (intro graph_inv_add) auto
    moreover have "set js \<subseteq> {..<n} - {i}" using Cons.prems by simp
    ultimately have "graph_inv n (E \<union> {(i, j), (j, i)} \<union> row_edges cs i (set js)) adj'"
      using Cons.IH Cons.prems(3) by blast
    then show ?thesis using True by (simp add: row_edges_insert Un_assoc)
  next
    case False
    then have "graph_row cs i js adj = ok adj'"
      using Cons.prems(1) by (auto simp: compatible_def Let_def same_cluster_eq split: if_splits)
    then have "graph_inv n (E \<union> row_edges cs i (set js)) adj'"
      using Cons.IH Cons.prems by simp
    then show ?thesis using False by (simp add: row_edges_insert)
  qed
qed

lemma graph_row_total:
  assumes "\<forall>c\<in>set cs. wf_confirmation c" "i < length cs" "set js \<subseteq> {..<length cs}"
  shows "\<exists>adj'. graph_row cs i js adj = ok adj'"
  using assms
proof (induction js arbitrary: adj)
  case Nil
  then show ?case by simp
next
  case (Cons j js)
  then have "wf_confirmation (cs ! i)" "wf_confirmation (cs ! j)" by simp_all
  then show ?case using Cons by (simp add: Let_def same_cluster_eq wf_confirmation_def)
qed

lemma graph_rows_inv:
  assumes "graph_rows cs is adj = ok adj'" "graph_inv (length cs) E adj" "set is \<subseteq> {..<length cs}"
  shows "graph_inv (length cs) (E \<union> (\<Union>i \<in> set is. row_edges cs i {i<..<length cs})) adj'"
  using assms
proof (induction "is" arbitrary: adj E)
  case Nil
  then show ?case by simp
next
  case (Cons i "is")
  from Cons.prems(1) obtain adj1 where r: "graph_row cs i [i + 1..<length cs] adj = ok adj1"
    and rs: "graph_rows cs is adj1 = ok adj'" by (auto simp: res_simps)
  have "set [i + 1..<length cs] = {i<..<length cs}" "{i<..<length cs} \<subseteq> {..<length cs} - {i}" by auto
  with graph_row_inv [OF r Cons.prems(2)] Cons.prems(3)
  have "graph_inv (length cs) (E \<union> row_edges cs i {i<..<length cs}) adj1" by simp
  from Cons.IH [OF rs this] Cons.prems(3) show ?case by (simp add: Un_assoc)
qed

lemma graph_rows_total:
  assumes "\<forall>c\<in>set cs. wf_confirmation c" "set is \<subseteq> {..<length cs}"
  shows "\<exists>adj'. graph_rows cs is adj = ok adj'"
  using assms(2)
proof (induction "is" arbitrary: adj)
  case Nil
  then show ?case by simp
next
  case (Cons i "is")
  have "\<exists>adj1. graph_row cs i [i + 1..<length cs] adj = ok adj1"
    using Cons.prems by (intro graph_row_total [OF assms(1)]) auto
  then show ?case using Cons by auto
qed

definition edges :: "shadow_confirmation list \<Rightarrow> (nat \<times> nat) set" where
  "edges cs = {(i, j). i < length cs \<and> j < length cs \<and> compatible (cs ! i) (cs ! j)}"

lemma compatibility_graph_edges:
  assumes "compatibility_graph cs = ok adj"
  shows "graph_inv (length cs) (edges cs) adj"
proof -
  let ?E = "\<Union>i \<in> {..<length cs}. row_edges cs i {i<..<length cs}"
  have "graph_inv (length cs) {} (replicate (length cs) 0)" by (simp add: graph_inv_def)
  then have "graph_inv (length cs) ({} \<union> (\<Union>i \<in> set [0..<length cs]. row_edges cs i {i<..<length cs})) adj"
    using assms unfolding compatibility_graph_def by (intro graph_rows_inv) auto
  then have inv: "graph_inv (length cs) ?E adj" by (simp add: atLeast0LessThan)
  have "(i, j) \<in> ?E \<longleftrightarrow> (i, j) \<in> edges cs" for i j
  proof (cases i j rule: linorder_cases)
    case equal
    then show ?thesis by (auto simp: row_edges_def edges_def)
  next
    case less
    then show ?thesis by (auto simp: row_edges_def edges_def)
  next
    case greater
    then show ?thesis by (force simp: row_edges_def edges_def compatible_commute [of "cs ! i" "cs ! j"])
  qed
  then have "?E = edges cs" by auto
  with inv show ?thesis by simp
qed

lemma compatibility_graph_total:
  "\<forall>c\<in>set cs. wf_confirmation c \<Longrightarrow> \<exists>adj. compatibility_graph cs = ok adj"
  unfolding compatibility_graph_def by (rule graph_rows_total) auto

text \<open>The adjacency masks of a confirmation list; no edges where building them raised.\<close>

definition adjacency :: "shadow_confirmation list \<Rightarrow> mask list" where
  "adjacency cs = (case compatibility_graph cs of Inr adj \<Rightarrow> adj | Inl _ \<Rightarrow> replicate (length cs) 0)"

lemma adjacency_inv: "\<exists>E \<subseteq> edges cs. graph_inv (length cs) E (adjacency cs) \<and> sym E"
proof (cases "compatibility_graph cs")
  case (Inl e)
  then show ?thesis by (intro exI [of _ "{}"]) (simp add: adjacency_def graph_inv_def sym_def)
next
  case (Inr adj)
  have "sym (edges cs)" by (auto simp: sym_def edges_def compatible_commute)
  then show ?thesis using compatibility_graph_edges [OF Inr] Inr by (auto simp: adjacency_def)
qed

interpretation cg: independence_graph "adjacency cs" for cs
proof -
  obtain E where E: "E \<subseteq> edges cs" "graph_inv (length cs) E (adjacency cs)" "sym E"
    using adjacency_inv by blast
  show "independence_graph (adjacency cs)"
    using E by unfold_locales (auto simp: graph_inv_def edges_def dest: symD)
qed

section \<open>What the computed number means\<close>

definition independent_set :: "shadow_confirmation list \<Rightarrow> nat set \<Rightarrow> bool" where
  "independent_set cs K \<longleftrightarrow> K \<subseteq> {..<length cs} \<and>
     (\<forall>i\<in>K. \<forall>j\<in>K. i \<noteq> j \<longrightarrow> compatible (cs ! i) (cs ! j))"

definition max_independent :: "shadow_confirmation list \<Rightarrow> nat" where
  "max_independent cs = Max (card ` {K. independent_set cs K})"

definition considered :: "shadow_confirmation list \<Rightarrow> shadow_confirmation list" where
  "considered cs = take MAX_CONFIRMATIONS_CONSIDERED cs"

definition search_target :: "shadow_confirmation list \<Rightarrow> int option \<Rightarrow> int" where
  "search_target cs at_least =
     (case at_least of None \<Rightarrow> int (length cs) | Some k \<Rightarrow> min k (int (length cs)))"

text \<open>The search ended before the step budget did.\<close>

definition within_step_budget :: "shadow_confirmation list \<Rightarrow> int option \<Rightarrow> bool" where
  "within_step_budget cs at_least =
     (case run_search (adjacency (considered cs)) (search_target (considered cs) at_least) (length (considered cs)) of
        None \<Rightarrow> False
      | Some (_, st) \<Rightarrow> steps st \<le> MAX_CLIQUE_SEARCH_STEPS)"

lemma length_adjacency [simp]: "length (adjacency cs) = length cs"
  using adjacency_inv [of cs] by (auto simp: graph_inv_def)

lemma adjacency_bit:
  assumes "compatibility_graph cs = ok adj" "i < length cs"
  shows "j \<in> positions (adjacency cs ! i) \<longleftrightarrow> j < length cs \<and> compatible (cs ! i) (cs ! j)"
  using compatibility_graph_edges [OF assms(1)] assms
  by (auto simp: adjacency_def graph_inv_def edges_def mem_positions)

lemma clique_iff_independent:
  assumes "compatibility_graph cs = ok adj"
  shows "cg.clique cs K \<longleftrightarrow> independent_set cs K"
  unfolding cg.clique_def independent_set_def using adjacency_bit [OF assms] by (auto simp: subset_iff)

lemma max_independent_greatest:
  assumes "independent_set cs K"
  shows "card K \<le> max_independent cs"
proof -
  have "{K. independent_set cs K} \<subseteq> Pow {..<length cs}" by (auto simp: independent_set_def)
  then have "finite {K. independent_set cs K}" by (rule finite_subset) simp
  then show ?thesis using assms unfolding max_independent_def by (intro Max_ge) auto
qed

lemma max_independent_attained: "\<exists>K. independent_set cs K \<and> card K = max_independent cs"
proof -
  have "{K. independent_set cs K} \<subseteq> Pow {..<length cs}" by (auto simp: independent_set_def)
  then have "finite {K. independent_set cs K}" by (rule finite_subset) simp
  moreover have "independent_set cs {}" by (simp add: independent_set_def)
  ultimately have "max_independent cs \<in> card ` {K. independent_set cs K}"
    unfolding max_independent_def by (intro Max_in) auto
  then show ?thesis by auto
qed

lemma max_independent_le: "max_independent cs \<le> length cs"
proof -
  obtain K where K: "independent_set cs K" "card K = max_independent cs" using max_independent_attained by blast
  then have "card K \<le> card {..<length cs}" by (intro card_mono) (auto simp: independent_set_def)
  then show ?thesis using K(2) by simp
qed

text \<open>Unfolding of \<open>independent_confirmations\<close> on well-formed confirmations.\<close>

lemma independent_confirmations_run:
  assumes wf: "\<forall>c\<in>set cs. wf_confirmation c" and ne: "cs \<noteq> []"
  obtains adj ab st where "compatibility_graph (considered cs) = ok adj"
    "run_search (adjacency (considered cs)) (search_target (considered cs) at_least) (length (considered cs)) = Some (ab, st)"
    "independent_confirmations cs at_least = ok (best st)"
proof -
  let ?cs = "considered cs"
  have "\<forall>c\<in>set ?cs. wf_confirmation c" using wf by (auto simp: considered_def dest: in_set_takeD)
  then obtain adj where adj: "compatibility_graph ?cs = ok adj" using compatibility_graph_total by blast
  then have a: "adjacency ?cs = adj" by (simp add: adjacency_def)
  obtain ab st where run: "run_search (adjacency ?cs) (search_target ?cs at_least) (length ?cs) = Some (ab, st)"
    using cg.run_search_post [of ?cs "search_target ?cs at_least"] by auto
  have "length ?cs \<noteq> 0" using ne by (simp add: considered_def MAX_CONFIRMATIONS_CONSIDERED_def)
  then have "independent_confirmations cs at_least = ok (best st)"
    using adj run a
    by (simp add: independent_confirmations_def considered_def [symmetric] search_target_def [symmetric] Let_def)
  then show thesis using that adj run by blast
qed

lemma independent_confirmations_Nil [simp]: "independent_confirmations [] at_least = ok 0"
  by (simp add: independent_confirmations_def)

lemma independent_confirmations_sound:
  assumes wf: "\<forall>c\<in>set cs. wf_confirmation c"
  shows "\<exists>k K. independent_confirmations cs at_least = ok k \<and> independent_set (considered cs) K \<and> card K = k"
proof (cases "cs = []")
  case True
  then show ?thesis by (auto simp: independent_set_def considered_def intro: exI [of _ "{}"])
next
  case False
  from independent_confirmations_run [OF wf False, of at_least]
  obtain adj ab st where *: "compatibility_graph (considered cs) = ok adj"
    "run_search (adjacency (considered cs)) (search_target (considered cs) at_least) (length (considered cs)) = Some (ab, st)"
    "independent_confirmations cs at_least = ok (best st)" .
  then show ?thesis
    using cg.run_search_sound [of "considered cs" _ ab st] clique_iff_independent [OF *(1)] by auto
qed

lemma independent_confirmations_complete:
  assumes wf: "\<forall>c\<in>set cs. wf_confirmation c" and bud: "cs \<noteq> [] \<Longrightarrow> within_step_budget cs at_least"
  shows "\<exists>k. independent_confirmations cs at_least = ok k \<and>
     (search_target (considered cs) at_least \<le> int k \<or> max_independent (considered cs) \<le> k)"
proof (cases "cs = []")
  case True
  then show ?thesis using max_independent_le [of "[]"] by (simp add: considered_def)
next
  case False
  from independent_confirmations_run [OF wf False, of at_least]
  obtain adj ab st where *: "compatibility_graph (considered cs) = ok adj"
    "run_search (adjacency (considered cs)) (search_target (considered cs) at_least) (length (considered cs)) = Some (ab, st)"
    "independent_confirmations cs at_least = ok (best st)" .
  have st: "steps st \<le> MAX_CLIQUE_SEARCH_STEPS" using bud [OF False] *(2) by (simp add: within_step_budget_def)
  obtain K where K: "independent_set (considered cs) K" "card K = max_independent (considered cs)"
    using max_independent_attained by blast
  then have "cg.clique (considered cs) K" using clique_iff_independent [OF *(1)] by simp
  then show ?thesis using cg.run_search_complete [of "considered cs" _ ab st K] *(2,3) st K(2) by auto
qed

lemma length_considered_le: "length (considered cs) \<le> MAX_CLIQUE_SEARCH_STEPS"
  by (simp add: considered_def MAX_CONFIRMATIONS_CONSIDERED_def MAX_CLIQUE_SEARCH_STEPS_def)

lemma nth_considered: "i < length (considered cs) \<Longrightarrow> considered cs ! i = cs ! i"
  by (simp add: considered_def)

lemma length_considered: "length (considered cs) = min (length cs) MAX_CONFIRMATIONS_CONSIDERED"
  by (simp add: considered_def min.commute)

text \<open>A threshold of one is met by any confirmation at all.\<close>

lemma independent_confirmations_one:
  assumes wf: "\<forall>c\<in>set cs. wf_confirmation c"
  shows "\<exists>k. independent_confirmations cs (Some 1) = ok k \<and> (1 \<le> k \<longleftrightarrow> cs \<noteq> [])"
proof (cases "cs = []")
  case True
  then show ?thesis by simp
next
  case False
  let ?cs = "considered cs"
  have pos: "0 < length ?cs" using False by (simp add: considered_def MAX_CONFIRMATIONS_CONSIDERED_def)
  then have t: "search_target ?cs (Some 1) = 1" unfolding search_target_def by (simp only: option.case)
  obtain st where st: "run_search (adjacency ?cs) 1 (length ?cs) = Some (True, st)" "1 \<le> best st"
    using cg.run_search_single [of ?cs] pos length_considered_le [of cs] by auto
  from independent_confirmations_run [OF wf False, of "Some 1"] st t show ?thesis using False by auto
qed

text \<open>A threshold of two is met exactly when two of the confirmations considered are compatible.\<close>

lemma independent_confirmations_two:
  assumes wf: "\<forall>c\<in>set cs. wf_confirmation c"
  shows "\<exists>k. independent_confirmations cs (Some 2) = ok k \<and>
     (2 \<le> k \<longleftrightarrow> (\<exists>i j. i < length (considered cs) \<and> j < length (considered cs) \<and> compatible (cs ! i) (cs ! j)))"
    (is "\<exists>k. _ \<and> (_ \<longleftrightarrow> ?pair)")
proof -
  let ?cs = "considered cs"
  obtain k K where k: "independent_confirmations cs (Some 2) = ok k" "independent_set ?cs K" "card K = k"
    using independent_confirmations_sound [OF wf] by blast
  have "?pair" if two: "2 \<le> k"
  proof -
    have "finite K" using k(2) unfolding independent_set_def by (meson finite_lessThan finite_subset)
    then obtain i j where "i \<in> K" "j \<in> K" "i \<noteq> j" using card_le_Suc0_iff_eq [of K] two k(3) by auto
    then show ?thesis using k(2) unfolding independent_set_def by (metis lessThan_iff nth_considered subsetD)
  qed
  moreover have "2 \<le> k" if pair: "?pair"
  proof -
    obtain i j where ij: "i < length ?cs" "j < length ?cs" "compatible (cs ! i) (cs ! j)" using pair by blast
    then have ne: "cs \<noteq> []" "i \<noteq> j" by (auto simp: considered_def)
    then have t: "search_target ?cs (Some 2) = 2" using ij by (simp add: search_target_def)
    from independent_confirmations_run [OF wf ne(1), of "Some 2"]
    obtain adj ab st where run: "compatibility_graph ?cs = ok adj"
      "run_search (adjacency ?cs) 2 (length ?cs) = Some (ab, st)" "independent_confirmations cs (Some 2) = ok (best st)"
      unfolding t .
    have "j \<in> positions (adjacency ?cs ! i)" using adjacency_bit [OF run(1) ij(1)] ij by (simp add: nth_considered)
    then have "\<exists>st. run_search (adjacency ?cs) 2 (length ?cs) = Some (True, st) \<and> 2 \<le> best st"
      using cg.run_search_pair [of i ?cs] ij(1) length_considered_le [of cs] by auto
    then show ?thesis using run k(1) by auto
  qed
  ultimately show ?thesis using k(1) by blast
qed

section \<open>Properties\<close>

text \<open>
  C4. \<open>independent_confirmations\<close> is exact: on well-formed confirmations, whenever the search ends
  within its step budget and no \<open>at_least\<close> hint is given, the number returned is the size of the
  largest set of pairwise independent confirmations among the first 256.
\<close>

theorem independent_confirmations_exact:
  assumes wf: "\<forall>c\<in>set cs. wf_confirmation c" and bud: "within_step_budget cs None"
  shows "independent_confirmations cs None = ok (max_independent (considered cs))"
proof -
  obtain k where k: "independent_confirmations cs None = ok k"
    "int (length (considered cs)) \<le> int k \<or> max_independent (considered cs) \<le> k"
    using independent_confirmations_complete [OF wf, of None] bud by (auto simp: search_target_def)
  obtain K where "independent_set (considered cs) K" "card K = k"
    using independent_confirmations_sound [OF wf, of None] k(1) by auto
  then have "k \<le> max_independent (considered cs)" using max_independent_greatest by blast
  then show ?thesis using k max_independent_le [of "considered cs"] by auto
qed

text \<open>
  C5. \<open>independent_confirmations\<close> always returns on well-formed confirmations (no exception, no
  exhausted recursion) and never over-reports: the number is the size of an actual set of pairwise
  independent confirmations, whatever the \<open>at_least\<close> hint and whether or not a bound was hit.
\<close>

theorem independent_confirmations_never_over_reports:
  assumes "\<forall>c\<in>set cs. wf_confirmation c"
  shows "\<exists>k. independent_confirmations cs at_least = ok k \<and> k \<le> max_independent (considered cs) \<and>
     (\<exists>K. independent_set (considered cs) K \<and> card K = k)"
  using independent_confirmations_sound [OF assms, of at_least] max_independent_greatest by metis

text \<open>
  The early exit does not change the decision: within the step budget, the result with
  \<open>at_least = r\<close> reaches \<open>r\<close> exactly when some independent set of that size exists.
\<close>

theorem independent_confirmations_decides:
  assumes wf: "\<forall>c\<in>set cs. wf_confirmation c" and bud: "within_step_budget cs (Some r)"
  shows "\<exists>k. independent_confirmations cs (Some r) = ok k \<and> (r \<le> int k \<longleftrightarrow> r \<le> int (max_independent (considered cs)))"
proof -
  obtain k where k: "independent_confirmations cs (Some r) = ok k"
    "min r (int (length (considered cs))) \<le> int k \<or> max_independent (considered cs) \<le> k"
    using independent_confirmations_complete [OF wf, of "Some r"] bud by (auto simp: search_target_def)
  obtain K where "independent_set (considered cs) K" "card K = k"
    using independent_confirmations_sound [OF wf, of "Some r"] k(1) by auto
  then have "k \<le> max_independent (considered cs)" using max_independent_greatest by blast
  then show ?thesis using k max_independent_le [of "considered cs"] by (auto simp: min_le_iff_disj)
qed

section \<open>Witnesses\<close>

definition sample_sig :: "byte \<Rightarrow> byte list" where
  "sample_sig b = replicate 32 7 @ replicate 8 b"

definition sample_conf :: "int \<Rightarrow> int \<Rightarrow> byte \<Rightarrow> shadow_confirmation" where
  "sample_conf r p b = \<lparr>sc_run_id = RunId r, sc_principal_id = PrincipalId p, sc_input_signature_hash = sample_sig b\<rparr>"

text \<open>Three submissions, the third repeating the first one's wording under a new identity.\<close>

definition sample_confs :: "shadow_confirmation list" where
  "sample_confs = [sample_conf 1 1 0, sample_conf 2 2 255, sample_conf 3 3 0]"

lemma length_sample_sig [simp]: "length (sample_sig b) = 40"
  by (simp add: sample_sig_def)

lemma sig_distance_sample:
  "sig_distance (sample_sig b) (sample_sig c) = hamming (72340172838076673 * uint b) (72340172838076673 * uint c)"
  by (simp add: sig_distance_def from_bytes_big_def sample_sig_def numeral_eq_Suc)

lemmas sample_simps = sample_confs_def sample_conf_def SIG_HASH_LEN_def sig_distance_sample hamming_def
  SAME_CLUSTER_MAX_HAMMING_def

lemma sample_confs_wf: "\<forall>c\<in>set sample_confs. wf_confirmation c"
  by (simp add: sample_simps wf_confirmation_def)

lemma sample_confs_considered [simp]: "considered sample_confs = sample_confs"
  by (simp add: considered_def MAX_CONFIRMATIONS_CONSIDERED_def sample_confs_def)

lemma sample_confs_graph: "compatibility_graph sample_confs = ok [2, 5, 2]"
  by (simp add: sample_simps same_cluster_eq compatibility_graph_def upt_rec numeral_3_eq_3 Let_def)

lemma sample_confs_run:
  "run_search [2, 5, 2] 3 3 = Some (False, \<lparr>best = 2, steps = 2\<rparr>)"
  "run_search [2, 5, 2] 2 3 = Some (True, \<lparr>best = 2, steps = 2\<rparr>)"
  by (simp_all add: run_search_def MAX_CLIQUE_SEARCH_STEPS_def Let_def numeral_3_eq_3)

lemma length_sample_confs [simp]: "length sample_confs = 3" "sample_confs \<noteq> []"
  by (simp_all add: sample_confs_def)

lemma sample_confs_budget: "within_step_budget sample_confs None" "within_step_budget sample_confs (Some 2)"
  by (simp_all add: within_step_budget_def search_target_def adjacency_def sample_confs_graph sample_confs_run
      MAX_CLIQUE_SEARCH_STEPS_def)

lemma sample_confs_None: "independent_confirmations sample_confs None = ok 2"
  by (simp add: independent_confirmations_def considered_def [symmetric] sample_confs_graph sample_confs_run)

theorem independent_confirmations_exact_witness:
  "within_step_budget sample_confs None \<and> independent_confirmations sample_confs None = ok 2 \<and>
   max_independent (considered sample_confs) = 2"
  using independent_confirmations_exact [OF sample_confs_wf sample_confs_budget(1)] sample_confs_budget sample_confs_None
  by simp

theorem independent_confirmations_never_over_reports_witness:
  "\<exists>k. independent_confirmations sample_confs (Some 3) = ok k \<and> k \<le> max_independent (considered sample_confs) \<and>
     (\<exists>K. independent_set (considered sample_confs) K \<and> card K = k)"
  using independent_confirmations_never_over_reports [OF sample_confs_wf, of "Some 3"] .

theorem independent_confirmations_decides_witness:
  "\<exists>k. independent_confirmations sample_confs (Some 2) = ok k \<and>
     (2 \<le> int k \<longleftrightarrow> 2 \<le> int (max_independent (considered sample_confs)))"
  using independent_confirmations_decides [OF sample_confs_wf sample_confs_budget(2)] .

end
