(* ===== verification/Config.thy ===== *)
theory Config
  imports Domain_Types
begin

text \<open>
  The sections of \<open>src/src/tracebed/domain/config.py\<close> the modelled components read, as records, and
  the snapshot \<open>EffectiveConfig\<close> that carries them. Numbers declared \<open>float\<close> are \<open>pyfloat\<close> where a
  consumer tests them against NaN or an infinity, and \<open>real\<close> where the consumer only computes with them.
\<close>

record retrieval_config =
  rc_total_budget_ms :: int
  rc_embed_timeout_ms :: int
  rc_rrf_k :: int
  rc_rrf_weight_vector :: real
  rc_rrf_weight_lexical :: real
  rc_arm_top_n :: int
  rc_fused_top_n :: int

record abstention_config =
  ac_cos_threshold :: real
  ac_bm25_sat_k :: pyfloat
  ac_bm25_norm_threshold :: real
  ac_rarity_min_shared_terms :: int
  ac_rarity_max_df_pct :: real
  ac_rarity_min_corpus_docs :: int

record score_config =
  w_sim :: real
  w_q :: real
  w_recency :: real
  w_validity :: real
  recency_half_life_days :: int

text \<open>\<open>slot_caps\<close> is a dict keyed by the slot's wire string; a slot may be missing from it.\<close>

record budget_config =
  bc_total_tokens :: int
  bc_static_prefix :: int
  bc_static_prefix_prefs :: int
  bc_static_prefix_lessons :: int
  bc_dynamic :: int
  bc_slot_caps :: "slot \<rightharpoonup> int"

text \<open>\<open>adapter_weights\<close> is a dict keyed by the adapter class's wire string; a class may be missing from it.\<close>

record scoring_config =
  sc_alpha :: pyfloat
  sc_q_start :: pyfloat
  sc_adapter_weights :: "(string \<times> pyfloat) list"
  sc_contribution_rubric :: "(string \<times> pyfloat) list"
  sc_contribution_judge_temperature :: pyfloat
  sc_updates_per_memory_per_day :: int

record promotion_config =
  pc_min_outcomes :: int
  pc_failure_lesson_outcomes :: int
  pc_min_distinct_principals :: int

record retirement_config =
  rt_q_threshold :: pyfloat
  rt_min_scored_uses :: int
  rt_min_distinct_principals :: int

record lifecycle_config =
  lc_decay_pct_per_idle_week :: pyfloat
  lc_archive_floor :: pyfloat
  lc_quarantine_ttl_days :: int
  lc_candidate_ttl_days :: int
  lc_revalidation_age_days :: int

record tier_a_config =
  ta_candidate_cap_per_run :: int

record killswitch_config =
  ks_holdout_pct :: pyfloat

record effective_config =
  retrieval :: retrieval_config
  abstention :: abstention_config
  score_cfg :: score_config
  budget :: budget_config
  scoring :: scoring_config
  promotion :: promotion_config
  retirement :: retirement_config
  lifecycle :: lifecycle_config
  tier_a :: tier_a_config
  killswitch :: killswitch_config
  killswitch_overlay :: "mem_type \<rightharpoonup> bool"

text \<open>The shipped defaults.\<close>

definition default_config :: effective_config where
  "default_config = \<lparr>
     retrieval = \<lparr>rc_total_budget_ms = 300, rc_embed_timeout_ms = 200, rc_rrf_k = 60,
       rc_rrf_weight_vector = 1, rc_rrf_weight_lexical = 1, rc_arm_top_n = 50, rc_fused_top_n = 20\<rparr>,
     abstention = \<lparr>ac_cos_threshold = 60 / 100, ac_bm25_sat_k = Fin 10, ac_bm25_norm_threshold = 1 / 2,
       ac_rarity_min_shared_terms = 2, ac_rarity_max_df_pct = 2, ac_rarity_min_corpus_docs = 200\<rparr>,
     score_cfg = \<lparr>w_sim = 40 / 100, w_q = 30 / 100, w_recency = 15 / 100, w_validity = 15 / 100,
       recency_half_life_days = 14\<rparr>,
     budget = \<lparr>bc_total_tokens = 1200, bc_static_prefix = 700, bc_static_prefix_prefs = 200,
       bc_static_prefix_lessons = 500, bc_dynamic = 500,
       bc_slot_caps = [FACT \<mapsto> 250, EXEMPLAR \<mapsto> 150, PITFALL \<mapsto> 100, CANDIDATE_NOTE \<mapsto> 100, JIT_LESSON \<mapsto> 150]\<rparr>,
     scoring = \<lparr>sc_alpha = Fin (3 / 10), sc_q_start = Fin (1 / 2),
       sc_adapter_weights = [(''verdict'', Fin 1), (''correction_adapter'', Fin (8 / 10)), (''downstream'', Fin (3 / 10)), (''implicit'', Fin 0)],
       sc_contribution_rubric = [(''NONE'', Fin 0), (''PARTIAL'', Fin (1 / 2)), (''FULL'', Fin 1)],
       sc_contribution_judge_temperature = Fin 0, sc_updates_per_memory_per_day = 1\<rparr>,
     promotion = \<lparr>pc_min_outcomes = 2, pc_failure_lesson_outcomes = 1, pc_min_distinct_principals = 2\<rparr>,
     retirement = \<lparr>rt_q_threshold = Fin (1 / 4), rt_min_scored_uses = 4, rt_min_distinct_principals = 3\<rparr>,
     lifecycle = \<lparr>lc_decay_pct_per_idle_week = Fin 5, lc_archive_floor = Fin (15 / 100),
       lc_quarantine_ttl_days = 30, lc_candidate_ttl_days = 45, lc_revalidation_age_days = 30\<rparr>,
     tier_a = \<lparr>ta_candidate_cap_per_run = 1\<rparr>,
     killswitch = \<lparr>ks_holdout_pct = Fin 5\<rparr>,
     killswitch_overlay = Map.empty\<rparr>"

end
