(* ===== verification/State_Machine.thy ===== *)
theory State_Machine
  imports Clique Config
begin

text \<open>
  The memory state machine of \<open>src/src/tracebed/domain/state_machine.py\<close>: the frozen limits and
  evidence, one guard per legal edge, the transition table and \<open>apply\<close>.

  A guard's message is a constructor of \<open>guard_reason\<close> carrying the values the f-string prints.
  \<open>apply\<close> is \<open>apply_transition\<close>; its exceptions are \<open>sm_error\<close>, where \<open>Raised\<close> is an exception a
  guard let escape (the theorems below show that evidence built by the code never lets one escape).
\<close>

section \<open>Limits and evidence\<close>

definition SHADOW_CONFIRM_MIN_INDEPENDENT :: int where
  "SHADOW_CONFIRM_MIN_INDEPENDENT = 2"

definition STALE_RETIRE_STRIKE_THRESHOLD :: int where
  "STALE_RETIRE_STRIKE_THRESHOLD = 2"

definition RETRIEVABLE_STATUSES :: "status set" where
  "RETRIEVABLE_STATUSES = {VALIDATED, CANDIDATE, PINNED}"

record transition_limits =
  quarantine_ttl_days :: int
  candidate_ttl_days :: int
  promote_min_outcomes :: int
  failure_lesson_outcomes :: int
  promotion_min_distinct_principals :: int
  retire_q_threshold :: pyfloat
  retire_min_scored_uses :: int
  retire_min_distinct_principals :: int
  archive_floor :: pyfloat

text \<open>\<open>TransitionLimits.__post_init__\<close>: the integer floors in their order, then the two fractions.\<close>

definition limit_floors :: "transition_limits \<Rightarrow> (int \<times> int) list" where
  "limit_floors l =
     [(quarantine_ttl_days l, 1), (candidate_ttl_days l, 1), (promote_min_outcomes l, 1),
      (failure_lesson_outcomes l, 1),
      (promotion_min_distinct_principals l, SHADOW_CONFIRM_MIN_INDEPENDENT),
      (retire_min_scored_uses l, 1), (retire_min_distinct_principals l, 2)]"

definition limits_post_init :: "transition_limits \<Rightarrow> transition_limits res" where
  "limits_post_init l =
     (if list_ex (\<lambda>(value, floor). value < floor) (limit_floors l) then raise ConfigError
      else if list_ex (\<lambda>x. \<not> in_range 0 1 x) [retire_q_threshold l, archive_floor l] then raise ConfigError
      else ok l)"

definition limits_from_config :: "effective_config \<Rightarrow> transition_limits res" where
  "limits_from_config cfg = limits_post_init \<lparr>
     quarantine_ttl_days = lc_quarantine_ttl_days (lifecycle cfg),
     candidate_ttl_days = lc_candidate_ttl_days (lifecycle cfg),
     promote_min_outcomes = pc_min_outcomes (promotion cfg),
     failure_lesson_outcomes = pc_failure_lesson_outcomes (promotion cfg),
     promotion_min_distinct_principals = pc_min_distinct_principals (promotion cfg),
     retire_q_threshold = rt_q_threshold (retirement cfg),
     retire_min_scored_uses = rt_min_scored_uses (retirement cfg),
     retire_min_distinct_principals = rt_min_distinct_principals (retirement cfg),
     archive_floor = lc_archive_floor (lifecycle cfg)\<rparr>"

record transition_evidence =
  now :: datetime
  ev_provenance_class :: provenance_class
  ev_trust_tier :: trust_tier
  ev_mem_type :: mem_type
  is_failure_lesson :: bool
  scan_passed :: bool
  scan_repass :: bool
  provenance_complete :: bool
  status_changed_at :: "datetime option"
  confirmations :: "shadow_confirmation list"
  has_verified_human_verdict :: bool
  promotion_outcomes :: int
  promotion_distinct_principals :: int
  outcome_consistent :: bool
  open_contradiction :: bool
  contradiction_equal_or_stronger :: bool
  contradiction_weaker_provenance :: bool
  scan_reflag :: bool
  invalidation_event :: bool
  ttl_class_expired :: bool
  revalidation_failed :: bool
  reverified :: bool
  strike_count :: int
  q_value :: pyfloat
  scored_use_count :: int
  distinct_scoring_principals :: int
  decay_floor_reached :: bool
  operator_restore :: bool
  operator_created :: bool
  erasure_or_approved_delete :: bool

text \<open>\<open>TransitionEvidence(now=, provenance_class=, trust_tier=, mem_type=)\<close> with every default.\<close>

definition base_evidence :: "datetime \<Rightarrow> provenance_class \<Rightarrow> trust_tier \<Rightarrow> mem_type \<Rightarrow> transition_evidence" where
  "base_evidence t c tier m = \<lparr>now = t, ev_provenance_class = c, ev_trust_tier = tier, ev_mem_type = m,
     is_failure_lesson = False, scan_passed = False, scan_repass = False, provenance_complete = False,
     status_changed_at = None, confirmations = [], has_verified_human_verdict = False,
     promotion_outcomes = 0, promotion_distinct_principals = 0, outcome_consistent = False,
     open_contradiction = False, contradiction_equal_or_stronger = False,
     contradiction_weaker_provenance = False, scan_reflag = False, invalidation_event = False,
     ttl_class_expired = False, revalidation_failed = False, reverified = False, strike_count = 0,
     q_value = Fin 0, scored_use_count = 0, distinct_scoring_principals = 0,
     decay_floor_reached = False, operator_restore = False, operator_created = False,
     erasure_or_approved_delete = False\<rparr>"

text \<open>\<open>TransitionEvidence.__post_init__\<close>: naive datetimes are refused.\<close>

definition evidence_post_init :: "transition_evidence \<Rightarrow> transition_evidence res" where
  "evidence_post_init e =
     (if \<not> is_aware (now e) then raise ValueError
      else case status_changed_at e of
             None \<Rightarrow> ok e
           | Some t \<Rightarrow> if \<not> is_aware t then raise ValueError else ok e)"

section \<open>Guards\<close>

datatype guard_reason =
    TierNotA | ClassNotParser | ScanNotPassed | ProvenanceIsIncomplete
  | TierNotB | ClassNotDistillerOrProposal
  | ClassNotOperator | NotOperatorCreated | NotPreference
  | ProposalNeverExits | TooFewIndependent nat int
  | TtlTimestampMissing string | TtlNotReached string int int
  | TooFewOutcomes int int | TooFewPrincipals int int | OutcomesInconsistent | ScanRepassMissing | OpenContradiction
  | NoWeakerContradiction | NoStrongerContradiction | NoInvalidation | DecayFloorNotReached
  | QNotBelow pyfloat pyfloat | TooFewScoredUses int int | TooFewScoringPrincipals int int
  | NotReverified | TooFewStrikes int
  | ProposalNeverRestored | NoOperatorRestore | NoErasure
  | NoReason \<comment> \<open>the empty string of an accepting outcome\<close>

record guard_outcome =
  go_ok :: bool
  go_reason :: guard_reason

type_synonym guard = "transition_evidence \<Rightarrow> transition_limits \<Rightarrow> guard_outcome res"

abbreviation accept :: "guard_outcome res" where
  "accept \<equiv> ok \<lparr>go_ok = True, go_reason = NoReason\<rparr>"

abbreviation refuse :: "guard_reason \<Rightarrow> guard_outcome res" where
  "refuse r \<equiv> ok \<lparr>go_ok = False, go_reason = r\<rparr>"

definition guard_none_to_candidate :: guard where
  "guard_none_to_candidate e l =
     (if ev_trust_tier e \<noteq> TierA then refuse TierNotA
      else if ev_provenance_class e \<noteq> PARSER then refuse ClassNotParser
      else if \<not> scan_passed e then refuse ScanNotPassed
      else if \<not> provenance_complete e then refuse ProvenanceIsIncomplete
      else accept)"

definition guard_none_to_quarantined :: guard where
  "guard_none_to_quarantined e l =
     (if ev_trust_tier e \<noteq> TierB then refuse TierNotB
      else if ev_provenance_class e \<notin> {DISTILLER, PROPOSAL} then refuse ClassNotDistillerOrProposal
      else if \<not> scan_passed e then refuse ScanNotPassed
      else if \<not> provenance_complete e then refuse ProvenanceIsIncomplete
      else accept)"

definition guard_none_to_pinned :: guard where
  "guard_none_to_pinned e l =
     (if ev_provenance_class e \<noteq> OPERATOR then refuse ClassNotOperator
      else if \<not> operator_created e then refuse NotOperatorCreated
      else if ev_mem_type e \<noteq> PREFERENCE then refuse NotPreference
      else accept)"

definition required_confirmations :: "transition_evidence \<Rightarrow> transition_limits \<Rightarrow> int" where
  "required_confirmations e l =
     (if is_failure_lesson e \<and> ev_mem_type e = LESSON then failure_lesson_outcomes l
      else SHADOW_CONFIRM_MIN_INDEPENDENT)"

definition guard_quarantined_to_candidate :: guard where
  "guard_quarantined_to_candidate e l =
     (if ev_provenance_class e = PROPOSAL then refuse ProposalNeverExits
      else
        (let required = required_confirmations e l in
         bind_res (independent_confirmations (confirmations e) (Some required)) (\<lambda>independent.
           if int independent \<ge> required then accept
           else refuse (TooFewIndependent independent required))))"

definition guard_ttl_expired :: "transition_evidence \<Rightarrow> int \<Rightarrow> string \<Rightarrow> guard_outcome res" where
  "guard_ttl_expired e ttl_days label =
     (case status_changed_at e of
        None \<Rightarrow> refuse (TtlTimestampMissing label)
      | Some t \<Rightarrow>
          (let age = micros (now e) - micros t; limit = timedelta_days ttl_days
           in if age \<ge> limit then accept else refuse (TtlNotReached label age limit)))"

definition guard_quarantined_to_archived :: guard where
  "guard_quarantined_to_archived e l = guard_ttl_expired e (quarantine_ttl_days l) ''quarantine''"

definition guard_candidate_to_validated :: guard where
  "guard_candidate_to_validated e l =
     (if promotion_outcomes e < promote_min_outcomes l
      then refuse (TooFewOutcomes (promotion_outcomes e) (promote_min_outcomes l))
      else if promotion_distinct_principals e < promotion_min_distinct_principals l
      then refuse (TooFewPrincipals (promotion_distinct_principals e) (promotion_min_distinct_principals l))
      else if \<not> outcome_consistent e then refuse OutcomesInconsistent
      else if \<not> scan_repass e then refuse ScanRepassMissing
      else if open_contradiction e then refuse OpenContradiction
      else accept)"

definition guard_candidate_to_quarantined :: guard where
  "guard_candidate_to_quarantined e l =
     (if contradiction_weaker_provenance e \<or> scan_reflag e then accept else refuse NoWeakerContradiction)"

definition guard_candidate_to_archived :: guard where
  "guard_candidate_to_archived e l = guard_ttl_expired e (candidate_ttl_days l) ''candidate''"

definition guard_validated_to_superseded :: guard where
  "guard_validated_to_superseded e l =
     (if contradiction_equal_or_stronger e then accept else refuse NoStrongerContradiction)"

definition guard_validated_to_stale :: guard where
  "guard_validated_to_stale e l =
     (if invalidation_event e \<or> ttl_class_expired e \<or> revalidation_failed e then accept else refuse NoInvalidation)"

definition guard_validated_to_archived :: guard where
  "guard_validated_to_archived e l = (if decay_floor_reached e then accept else refuse DecayFloorNotReached)"

definition guard_validated_to_retired :: guard where
  "guard_validated_to_retired e l =
     (if fle (retire_q_threshold l) (q_value e) then refuse (QNotBelow (q_value e) (retire_q_threshold l))
      else if scored_use_count e < retire_min_scored_uses l
      then refuse (TooFewScoredUses (scored_use_count e) (retire_min_scored_uses l))
      else if distinct_scoring_principals e < retire_min_distinct_principals l
      then refuse (TooFewScoringPrincipals (distinct_scoring_principals e) (retire_min_distinct_principals l))
      else accept)"

definition guard_stale_to_validated :: guard where
  "guard_stale_to_validated e l = (if reverified e then accept else refuse NotReverified)"

definition guard_stale_to_retired :: guard where
  "guard_stale_to_retired e l =
     (if strike_count e \<ge> STALE_RETIRE_STRIKE_THRESHOLD then accept else refuse (TooFewStrikes (strike_count e)))"

definition guard_archived_to_validated :: guard where
  "guard_archived_to_validated e l =
     (if ev_provenance_class e = PROPOSAL then refuse ProposalNeverRestored
      else if operator_restore e then accept
      else refuse NoOperatorRestore)"

definition guard_to_tombstoned :: guard where
  "guard_to_tombstoned e l = (if erasure_or_approved_delete e then accept else refuse NoErasure)"

section \<open>The table and its one entry point\<close>

definition NON_TERMINAL_STATUSES :: "status list" where
  "NON_TERMINAL_STATUSES = filter (\<lambda>s. s \<noteq> TOMBSTONED) all_statuses"

definition TRANSITIONS :: "((status option \<times> status) \<times> guard) list" where
  "TRANSITIONS =
     [((None, CANDIDATE), guard_none_to_candidate),
      ((None, QUARANTINED), guard_none_to_quarantined),
      ((None, PINNED), guard_none_to_pinned),
      ((Some QUARANTINED, CANDIDATE), guard_quarantined_to_candidate),
      ((Some QUARANTINED, ARCHIVED), guard_quarantined_to_archived),
      ((Some CANDIDATE, VALIDATED), guard_candidate_to_validated),
      ((Some CANDIDATE, QUARANTINED), guard_candidate_to_quarantined),
      ((Some CANDIDATE, ARCHIVED), guard_candidate_to_archived),
      ((Some VALIDATED, SUPERSEDED), guard_validated_to_superseded),
      ((Some VALIDATED, STALE), guard_validated_to_stale),
      ((Some VALIDATED, ARCHIVED), guard_validated_to_archived),
      ((Some VALIDATED, RETIRED), guard_validated_to_retired),
      ((Some STALE, VALIDATED), guard_stale_to_validated),
      ((Some STALE, RETIRED), guard_stale_to_retired),
      ((Some ARCHIVED, VALIDATED), guard_archived_to_validated)]
     @ map (\<lambda>s. ((Some s, TOMBSTONED), guard_to_tombstoned)) NON_TERMINAL_STATUSES"

definition LEGAL_CREATION_STATUSES :: "status list" where
  "LEGAL_CREATION_STATUSES = map (snd \<circ> fst) (filter (\<lambda>((current, _), _). current = None) TRANSITIONS)"

datatype sm_error =
    IllegalTransition "status option" status
  | GuardNotSatisfied "status option" status guard_reason
  | Raised py_error

definition assert_legal_creation_status :: "status \<Rightarrow> sm_error + unit" where
  "assert_legal_creation_status s =
     (if s \<notin> set LEGAL_CREATION_STATUSES then Inl (IllegalTransition None s) else Inr ())"

definition apply_transition ::
  "status option \<Rightarrow> status \<Rightarrow> transition_evidence \<Rightarrow> transition_limits \<Rightarrow> sm_error + status" where
  "apply_transition current target e l =
     (case map_of TRANSITIONS (current, target) of
        None \<Rightarrow> Inl (IllegalTransition current target)
      | Some guard \<Rightarrow>
          (case guard e l of
             Inl exc \<Rightarrow> Inl (Raised exc)
           | Inr outcome \<Rightarrow>
               (if \<not> go_ok outcome
                then Inl (GuardNotSatisfied current target (go_reason outcome))
                else Inr target)))"

section \<open>The table as a specification\<close>

text \<open>
  \<open>plan_step\<close> restates the lifecycle table of the design document, one rule per row, over what the
  evidence says. Corroboration is stated by the existence of an independent set, not by the search.
\<close>

definition wf_evidence :: "transition_evidence \<Rightarrow> bool" where
  "wf_evidence e \<longleftrightarrow> (\<forall>c\<in>set (confirmations e). wf_confirmation c)"

definition corroborated :: "transition_evidence \<Rightarrow> transition_limits \<Rightarrow> bool" where
  "corroborated e l \<longleftrightarrow>
     (\<exists>K. independent_set (considered (confirmations e)) K \<and> required_confirmations e l \<le> int (card K))"

definition ttl_elapsed :: "transition_evidence \<Rightarrow> int \<Rightarrow> bool" where
  "ttl_elapsed e days \<longleftrightarrow>
     (\<exists>t. status_changed_at e = Some t \<and> days * 86400 * 1000000 \<le> micros (now e) - micros t)"

inductive plan_step :: "transition_evidence \<Rightarrow> transition_limits \<Rightarrow> status option \<Rightarrow> status \<Rightarrow> bool"
  for e l where
  create_candidate: "ev_trust_tier e = TierA \<Longrightarrow> ev_provenance_class e = PARSER \<Longrightarrow> scan_passed e \<Longrightarrow>
     provenance_complete e \<Longrightarrow> plan_step e l None CANDIDATE"
| create_quarantined: "ev_trust_tier e = TierB \<Longrightarrow> ev_provenance_class e \<in> {DISTILLER, PROPOSAL} \<Longrightarrow>
     scan_passed e \<Longrightarrow> provenance_complete e \<Longrightarrow> plan_step e l None QUARANTINED"
| create_pinned: "ev_provenance_class e = OPERATOR \<Longrightarrow> operator_created e \<Longrightarrow> ev_mem_type e = PREFERENCE \<Longrightarrow>
     plan_step e l None PINNED"
| corroborate: "ev_provenance_class e \<noteq> PROPOSAL \<Longrightarrow> corroborated e l \<Longrightarrow> plan_step e l (Some QUARANTINED) CANDIDATE"
| quarantine_ttl: "ttl_elapsed e (quarantine_ttl_days l) \<Longrightarrow> plan_step e l (Some QUARANTINED) ARCHIVED"
| promote: "promote_min_outcomes l \<le> promotion_outcomes e \<Longrightarrow>
     promotion_min_distinct_principals l \<le> promotion_distinct_principals e \<Longrightarrow> outcome_consistent e \<Longrightarrow>
     scan_repass e \<Longrightarrow> \<not> open_contradiction e \<Longrightarrow> plan_step e l (Some CANDIDATE) VALIDATED"
| demote: "contradiction_weaker_provenance e \<or> scan_reflag e \<Longrightarrow> plan_step e l (Some CANDIDATE) QUARANTINED"
| candidate_ttl: "ttl_elapsed e (candidate_ttl_days l) \<Longrightarrow> plan_step e l (Some CANDIDATE) ARCHIVED"
| supersede: "contradiction_equal_or_stronger e \<Longrightarrow> plan_step e l (Some VALIDATED) SUPERSEDED"
| make_stale: "invalidation_event e \<or> ttl_class_expired e \<or> revalidation_failed e \<Longrightarrow>
     plan_step e l (Some VALIDATED) STALE"
| decay: "decay_floor_reached e \<Longrightarrow> plan_step e l (Some VALIDATED) ARCHIVED"
| retire: "\<not> fle (retire_q_threshold l) (q_value e) \<Longrightarrow> retire_min_scored_uses l \<le> scored_use_count e \<Longrightarrow>
     retire_min_distinct_principals l \<le> distinct_scoring_principals e \<Longrightarrow> plan_step e l (Some VALIDATED) RETIRED"
| reverify: "reverified e \<Longrightarrow> plan_step e l (Some STALE) VALIDATED"
| second_strike: "2 \<le> strike_count e \<Longrightarrow> plan_step e l (Some STALE) RETIRED"
| restore: "ev_provenance_class e \<noteq> PROPOSAL \<Longrightarrow> operator_restore e \<Longrightarrow> plan_step e l (Some ARCHIVED) VALIDATED"
| erase: "s \<noteq> TOMBSTONED \<Longrightarrow> erasure_or_approved_delete e \<Longrightarrow> plan_step e l (Some s) TOMBSTONED"

inductive_simps plan_step_to [simp]:
  "plan_step e l None t"
  "plan_step e l (Some QUARANTINED) t"
  "plan_step e l (Some CANDIDATE) t"
  "plan_step e l (Some VALIDATED) t"
  "plan_step e l (Some STALE) t"
  "plan_step e l (Some ARCHIVED) t"
  "plan_step e l (Some SUPERSEDED) t"
  "plan_step e l (Some RETIRED) t"
  "plan_step e l (Some PINNED) t"
  "plan_step e l (Some TOMBSTONED) t"

lemmas guard_defs = guard_none_to_candidate_def guard_none_to_quarantined_def guard_none_to_pinned_def
  guard_quarantined_to_archived_def guard_candidate_to_validated_def guard_candidate_to_quarantined_def
  guard_candidate_to_archived_def guard_validated_to_superseded_def guard_validated_to_stale_def
  guard_validated_to_archived_def guard_validated_to_retired_def guard_stale_to_validated_def
  guard_stale_to_retired_def guard_archived_to_validated_def guard_to_tombstoned_def

lemmas table_defs = TRANSITIONS_def NON_TERMINAL_STATUSES_def all_statuses_def

lemma guard_ttl_ok: "guard_ttl_expired e d lab = accept \<longleftrightarrow> ttl_elapsed e d"
  by (auto simp: guard_ttl_expired_def ttl_elapsed_def timedelta_days_def Let_def split: option.splits)

lemma guard_ttl_returns: "\<exists>g. guard_ttl_expired e d lab = ok g \<and> (go_ok g \<longleftrightarrow> ttl_elapsed e d)"
  by (auto simp: guard_ttl_expired_def ttl_elapsed_def timedelta_days_def Let_def split: option.splits)

text \<open>The quarantine guard returns on well-formed evidence, and what its answer means.\<close>

lemma guard_quarantine_sound:
  assumes "wf_evidence e"
  shows "\<exists>g. guard_quarantined_to_candidate e l = ok g \<and>
     (go_ok g \<longrightarrow> ev_provenance_class e \<noteq> PROPOSAL \<and> corroborated e l)"
proof -
  obtain k K where k: "independent_confirmations (confirmations e) (Some (required_confirmations e l)) = ok k"
    "independent_set (considered (confirmations e)) K" "card K = k"
    using assms independent_confirmations_sound unfolding wf_evidence_def by blast
  then show ?thesis by (auto simp: guard_quarantined_to_candidate_def Let_def corroborated_def)
qed

lemma guard_quarantine_complete:
  assumes wf: "wf_evidence e" and small: "required_confirmations e l \<le> 2 \<or>
      within_step_budget (confirmations e) (Some (required_confirmations e l))"
    and "ev_provenance_class e \<noteq> PROPOSAL" "corroborated e l"
  shows "guard_quarantined_to_candidate e l = accept"
proof -
  let ?cs = "confirmations e" and ?r = "required_confirmations e l"
  have wf': "\<forall>c\<in>set ?cs. wf_confirmation c" using wf by (simp add: wf_evidence_def)
  obtain K where K: "independent_set (considered ?cs) K" "?r \<le> int (card K)"
    using assms(4) by (auto simp: corroborated_def)
  have finK: "finite K" and subK: "K \<subseteq> {..<length (considered ?cs)}"
    using K(1) by (auto simp: independent_set_def intro: finite_subset)
  have "\<exists>k. independent_confirmations ?cs (Some ?r) = ok k \<and> ?r \<le> int k"
  proof -
    consider "?r \<le> 0" | "?r = 1" | "?r = 2" | "within_step_budget ?cs (Some ?r)" using small by linarith
    then show ?thesis
    proof cases
      case 1
      then show ?thesis using independent_confirmations_sound [OF wf', of "Some ?r"] by auto
    next
      case 2
      then have "?cs \<noteq> []" using K subK finK by (auto simp: considered_def)
      then show ?thesis using independent_confirmations_one [OF wf'] 2 by auto
    next
      case 3
      then obtain i j where "i \<in> K" "j \<in> K" "i \<noteq> j" using card_le_Suc0_iff_eq [OF finK] K(2) by force
      then have "\<exists>i j. i < length (considered ?cs) \<and> j < length (considered ?cs) \<and> compatible (?cs ! i) (?cs ! j)"
        using K(1) unfolding independent_set_def by (metis lessThan_iff nth_considered subsetD)
      then show ?thesis using independent_confirmations_two [OF wf'] 3 by auto
    next
      case 4
      have "card K \<le> max_independent (considered ?cs)" using K(1) by (rule max_independent_greatest)
      moreover have "card K \<le> length (considered ?cs)" using subK by (metis card_lessThan card_mono finite_lessThan)
      ultimately show ?thesis
        using independent_confirmations_complete [OF wf', of "Some ?r"] 4 K(2)
        by (fastforce simp: search_target_def min_le_iff_disj)
    qed
  qed
  then show ?thesis using assms(3) by (auto simp: guard_quarantined_to_candidate_def Let_def)
qed

text \<open>The three lemmas below are the whole link between the executable table and \<open>plan_step\<close>.\<close>

lemma apply_transition_simp:
  "apply_transition c t e l = Inr s \<longleftrightarrow>
     s = t \<and> (\<exists>g out. map_of TRANSITIONS (c, t) = Some g \<and> g e l = ok out \<and> go_ok out)"
  by (auto simp: apply_transition_def split: option.splits sum.splits if_splits)

lemma apply_transition_plan:
  assumes "wf_evidence e" "apply_transition c t e l = Inr s"
  shows "s = t \<and> plan_step e l c t"
proof -
  obtain g out where g: "map_of TRANSITIONS (c, t) = Some g" "g e l = ok out" "go_ok out" and "s = t"
    using assms(2) by (auto simp: apply_transition_simp)
  moreover obtain q where "guard_quarantined_to_candidate e l = ok q"
    "go_ok q \<longrightarrow> ev_provenance_class e \<noteq> PROPOSAL \<and> corroborated e l"
    using guard_quarantine_sound [OF assms(1)] by blast
  ultimately show ?thesis
    using guard_ttl_returns [of e "quarantine_ttl_days l" "''quarantine''"]
      guard_ttl_returns [of e "candidate_ttl_days l" "''candidate''"] map_of_SomeD [OF g(1)]
    by (auto simp: table_defs guard_defs STALE_RETIRE_STRIKE_THRESHOLD_def not_less split: if_splits)
qed

lemma plan_apply_transition:
  assumes "wf_evidence e" "plan_step e l c t"
    and "c = Some QUARANTINED \<longrightarrow> t = CANDIDATE \<longrightarrow> required_confirmations e l \<le> 2 \<or>
      within_step_budget (confirmations e) (Some (required_confirmations e l))"
  shows "apply_transition c t e l = Inr t"
  using assms(2)
proof cases
  case corroborate
  then show ?thesis using guard_quarantine_complete assms(1,3)
    by (simp add: apply_transition_simp table_defs)
next
  case (erase s)
  then show ?thesis by (cases s) (simp_all add: apply_transition_simp table_defs guard_to_tombstoned_def)
next
  case quarantine_ttl
  then show ?thesis
    using guard_ttl_returns [of e "quarantine_ttl_days l" "''quarantine''"]
    by (auto simp: apply_transition_simp table_defs guard_quarantined_to_archived_def)
next
  case candidate_ttl
  then show ?thesis
    using guard_ttl_returns [of e "candidate_ttl_days l" "''candidate''"]
    by (auto simp: apply_transition_simp table_defs guard_candidate_to_archived_def)
qed (auto simp: apply_transition_simp table_defs guard_defs STALE_RETIRE_STRIKE_THRESHOLD_def)

lemma apply_never_raises:
  assumes "wf_evidence e" shows "apply_transition c t e l \<noteq> Inl (Raised x)"
proof
  assume "apply_transition c t e l = Inl (Raised x)"
  then obtain g where g: "map_of TRANSITIONS (c, t) = Some g" "g e l = Inl x"
    by (auto simp: apply_transition_def split: option.splits sum.splits if_splits)
  obtain q where "guard_quarantined_to_candidate e l = ok q" using guard_quarantine_sound [OF assms] by blast
  moreover obtain g1 g2 where "guard_ttl_expired e (quarantine_ttl_days l) ''quarantine'' = ok g1"
     "guard_ttl_expired e (candidate_ttl_days l) ''candidate'' = ok g2"
    using guard_ttl_returns by meson
  ultimately show False
    using map_of_SomeD [OF g(1)] g(2) by (auto simp: table_defs guard_defs split: if_splits)
qed

lemma corroborated_pair:
  assumes "corroborated e l" "required_confirmations e l = 2"
  shows "\<exists>a\<in>set (confirmations e). \<exists>b\<in>set (confirmations e). compatible a b"
proof -
  obtain K where K: "independent_set (considered (confirmations e)) K" "2 \<le> int (card K)"
    using assms by (auto simp: corroborated_def)
  then have "finite K" by (auto simp: independent_set_def intro: finite_subset)
  then obtain i j where "i \<in> K" "j \<in> K" "i \<noteq> j" using card_le_Suc0_iff_eq [of K] K(2) by force
  moreover have "set (considered (confirmations e)) \<subseteq> set (confirmations e)" 
    by (auto simp: considered_def dest: in_set_takeD)
  ultimately show ?thesis using K(1) unfolding independent_set_def
    by (meson lessThan_iff nth_mem subsetD)
qed

section \<open>Lives of a row\<close>

text \<open>
  The possible histories of one row: its class, trust tier and type are immutable, each move is one
  call of \<open>apply\<close> that returned, on evidence and limits their constructors accept. The newest move
  comes first.
\<close>

record transition_step =
  st_from :: "status option"
  st_to :: status
  st_evidence :: transition_evidence
  st_limits :: transition_limits

inductive life :: "provenance_class \<Rightarrow> trust_tier \<Rightarrow> mem_type \<Rightarrow> transition_step list \<Rightarrow> status option \<Rightarrow> bool"
  for c tier m where
  unborn: "life c tier m [] None"
| move: "life c tier m h s \<Longrightarrow> apply_transition s target e l = Inr t \<Longrightarrow> wf_evidence e \<Longrightarrow>
     limits_post_init l = ok l \<Longrightarrow> ev_provenance_class e = c \<Longrightarrow> ev_trust_tier e = tier \<Longrightarrow> ev_mem_type e = m \<Longrightarrow>
     life c tier m (\<lparr>st_from = s, st_to = t, st_evidence = e, st_limits = l\<rparr> # h) (Some t)"

inductive_cases life_None: "life c tier m h None"

lemma life_proposal:
  assumes "life PROPOSAL tier m h s"
  shows "s \<in> {None, Some QUARANTINED, Some ARCHIVED, Some TOMBSTONED}"
  using assms
proof induction
  case unborn
  show ?case by simp
next
  case (move h s target e l t)
  from apply_transition_plan [OF move.hyps(3,2)] have "t = target" "plan_step e l s target" by auto
  then show ?case using move.IH move.hyps(5) by auto
qed

definition earned :: "transition_step list \<Rightarrow> bool" where
  "earned h \<longleftrightarrow> (\<exists>x\<in>set h.
     st_from x = Some QUARANTINED \<and> st_to x = CANDIDATE \<and> corroborated (st_evidence x) (st_limits x) \<or>
     st_from x = Some ARCHIVED \<and> st_to x = VALIDATED \<and> operator_restore (st_evidence x))"

lemma earned_Cons: "earned (x # h) \<longleftrightarrow>
     st_from x = Some QUARANTINED \<and> st_to x = CANDIDATE \<and> corroborated (st_evidence x) (st_limits x) \<or>
     st_from x = Some ARCHIVED \<and> st_to x = VALIDATED \<and> operator_restore (st_evidence x) \<or> earned h"
  by (auto simp: earned_def)

lemma life_tier_b:
  assumes "life c TierB m h s"
  shows "case s of None \<Rightarrow> True
     | Some s \<Rightarrow> s \<in> {QUARANTINED, ARCHIVED, TOMBSTONED} \<or>
         (s = PINNED \<and> c = OPERATOR \<and> m = PREFERENCE) \<or> (s \<noteq> PINNED \<and> earned h)"
  using assms
proof induction
  case unborn
  show ?case by simp
next
  case (move h s target e l t)
  from apply_transition_plan [OF move.hyps(3,2)] have "t = target" and p: "plan_step e l s target" by auto
  from p show ?case using move.IH move.hyps(5-7) \<open>t = target\<close>
    by cases (auto simp: earned_Cons)
qed

lemma limits_post_init_iff:
  "limits_post_init l = ok r \<longleftrightarrow> r = l \<and> 1 \<le> quarantine_ttl_days l \<and> 1 \<le> candidate_ttl_days l \<and>
     1 \<le> promote_min_outcomes l \<and> 1 \<le> failure_lesson_outcomes l \<and> 2 \<le> promotion_min_distinct_principals l \<and>
     1 \<le> retire_min_scored_uses l \<and> 2 \<le> retire_min_distinct_principals l \<and>
     in_range 0 1 (retire_q_threshold l) \<and> in_range 0 1 (archive_floor l)"
  by (auto simp: limits_post_init_def limit_floors_def SHADOW_CONFIRM_MIN_INDEPENDENT_def not_less)

lemma corroborated_nonempty:
  assumes "corroborated e l" "1 \<le> required_confirmations e l"
  shows "confirmations e \<noteq> []"
  using assms by (auto simp: corroborated_def independent_set_def considered_def)

lemma life_step_valid:
  assumes "life c tier m h s" "x \<in> set h"
  shows "limits_post_init (st_limits x) = ok (st_limits x) \<and> wf_evidence (st_evidence x) \<and>
     ev_provenance_class (st_evidence x) = c \<and> ev_trust_tier (st_evidence x) = tier \<and> ev_mem_type (st_evidence x) = m \<and>
     apply_transition (st_from x) (st_to x) (st_evidence x) (st_limits x) = Inr (st_to x)"
  using assms by induction (auto simp: apply_transition_simp)

lemma table_refusals:
  assumes "(ct, g) \<in> set TRANSITIONS" "g e l = ok out" "\<not> go_ok out"
  shows "go_reason out \<noteq> NoReason"
  using assms by (auto simp: table_defs guard_defs guard_quarantined_to_candidate_def guard_ttl_expired_def Let_def
      bind_res_def split: if_splits option.splits sum.splits)

section \<open>Properties\<close>

text \<open>
  C1. The executable machine implements the lifecycle table: with a confirmation threshold of at most
  two, \<open>apply\<close> returns exactly on the steps the table allows, and always returns the requested target.
\<close>

theorem apply_implements_plan:
  assumes "wf_evidence e" and "required_confirmations e l \<le> 2"
  shows "apply_transition c t e l = Inr s \<longleftrightarrow> s = t \<and> plan_step e l c t"
  using apply_transition_plan [OF assms(1)] plan_apply_transition [OF assms(1)] assms(2) by blast

text \<open>
  C3. A PROPOSAL row never becomes retrievable: whatever its evidence, every history leaves it
  quarantined, archived or tombstoned.
\<close>

theorem proposal_never_retrievable:
  assumes "life PROPOSAL tier m h (Some s)"
  shows "s \<notin> RETRIEVABLE_STATUSES \<and> s \<in> {QUARANTINED, ARCHIVED, TOMBSTONED}"
  using life_proposal [OF assms] by (auto simp: RETRIEVABLE_STATUSES_def)


text \<open>
  C32. One principal can neither promote nor retire a row: under limits the configuration accepted,
  both moves need outcomes of at least two distinct principals.
\<close>

theorem no_single_principal_moves:
  assumes "limits_from_config cfg = ok l" "wf_evidence e"
    and "apply_transition (Some s) t e l = Inr t" "(s, t) \<in> {(CANDIDATE, VALIDATED), (VALIDATED, RETIRED)}"
  shows "2 \<le> (if t = VALIDATED then promotion_distinct_principals e else distinct_scoring_principals e)"
proof -
  have "2 \<le> promotion_min_distinct_principals l" "2 \<le> retire_min_distinct_principals l"
    using assms(1) by (auto simp: limits_from_config_def limits_post_init_iff)
  then show ?thesis using apply_transition_plan [OF assms(2,3)] assms(4) by auto
qed


text \<open>
  The guards never read the human-verdict flag: it changes no decision and no message.
\<close>

theorem human_verdict_never_consulted:
  "apply_transition c t (e\<lparr>has_verified_human_verdict := b\<rparr>) l = apply_transition c t e l"
proof -
  have "g (e\<lparr>has_verified_human_verdict := b\<rparr>) l = g e l" if "(ct, g) \<in> set TRANSITIONS" for ct g
    using that by (auto simp: table_defs guard_defs guard_quarantined_to_candidate_def required_confirmations_def
        guard_ttl_expired_def cong: option.case_cong)
  then have "g (e\<lparr>has_verified_human_verdict := b\<rparr>) l = g e l" if "map_of TRANSITIONS (c, t) = Some g" for g
    using map_of_SomeD [OF that] by blast
  then show ?thesis by (cases "map_of TRANSITIONS (c, t)") (simp_all add: apply_transition_def)
qed

text \<open>
  Erasure: every status but TOMBSTONED can be erased, exactly on an erasure request, and a
  tombstone is final: no history moves on from it.
\<close>

theorem tombstone_terminal:
  "(apply_transition (Some s) TOMBSTONED e l = Inr TOMBSTONED \<longleftrightarrow> s \<noteq> TOMBSTONED \<and> erasure_or_approved_delete e) \<and>
   apply_transition (Some TOMBSTONED) t e l = Inl (IllegalTransition (Some TOMBSTONED) t)"
proof
  show "apply_transition (Some s) TOMBSTONED e l = Inr TOMBSTONED \<longleftrightarrow> s \<noteq> TOMBSTONED \<and> erasure_or_approved_delete e"
    by (cases s) (auto simp: apply_transition_def table_defs guard_to_tombstoned_def)
  have "map_of TRANSITIONS (Some TOMBSTONED, t) = None"
    by (auto simp: map_of_eq_None_iff table_defs)
  then show "apply_transition (Some TOMBSTONED) t e l = Inl (IllegalTransition (Some TOMBSTONED) t)"
    by (simp add: apply_transition_def)
qed

section \<open>Witnesses\<close>

definition sample_limits :: transition_limits where
  "sample_limits = \<lparr>quarantine_ttl_days = 30, candidate_ttl_days = 45, promote_min_outcomes = 2,
     failure_lesson_outcomes = 1, promotion_min_distinct_principals = 2, retire_q_threshold = Fin (1 / 4),
     retire_min_scored_uses = 4, retire_min_distinct_principals = 3, archive_floor = Fin (15 / 100)\<rparr>"

definition sample_birth :: "provenance_class \<Rightarrow> transition_evidence" where
  "sample_birth c = (base_evidence (Aware 0) c TierB LESSON)\<lparr>scan_passed := True, provenance_complete := True\<rparr>"

definition sample_expiry :: "provenance_class \<Rightarrow> transition_evidence" where
  "sample_expiry c = (base_evidence (Aware (31 * 86400 * 1000000)) c TierB LESSON)\<lparr>status_changed_at := Some (Aware 0)\<rparr>"

definition sample_corroboration :: transition_evidence where
  "sample_corroboration = (base_evidence (Aware 0) DISTILLER TierB LESSON)\<lparr>confirmations := sample_confs\<rparr>"

definition sample_promotion :: transition_evidence where
  "sample_promotion = (base_evidence (Aware 0) DISTILLER TierB LESSON)\<lparr>promotion_outcomes := 3,
     promotion_distinct_principals := 2, outcome_consistent := True, scan_repass := True\<rparr>"

lemmas sample_evidence_defs = sample_limits_def sample_birth_def sample_expiry_def sample_corroboration_def
  sample_promotion_def base_evidence_def

lemma sample_wf: "wf_evidence (sample_birth c)" "wf_evidence (sample_expiry c)" "wf_evidence sample_corroboration"
  "wf_evidence sample_promotion"
  using sample_confs_wf by (simp_all add: wf_evidence_def sample_evidence_defs)

lemma sample_limits_ok: "limits_post_init sample_limits = ok sample_limits"
  by (simp add: limits_post_init_iff sample_limits_def in_range_def)

lemma default_limits: "limits_from_config default_config = ok sample_limits"
  by (simp add: limits_from_config_def limits_post_init_iff sample_limits_def in_range_def default_config_def)

lemma sample_confs_Some: "independent_confirmations sample_confs (Some 2) = ok 2"
  by (simp add: independent_confirmations_def considered_def [symmetric] sample_confs_graph sample_confs_run)

lemma sample_exit: "apply_transition (Some QUARANTINED) CANDIDATE sample_corroboration sample_limits = Inr CANDIDATE"
  by (simp add: apply_transition_def table_defs guard_quarantined_to_candidate_def sample_evidence_defs
      required_confirmations_def SHADOW_CONFIRM_MIN_INDEPENDENT_def sample_confs_Some)

lemma sample_life_proposal:
  "\<exists>h. life PROPOSAL TierB LESSON h (Some ARCHIVED)"
proof -
  have "apply_transition None QUARANTINED (sample_birth PROPOSAL) sample_limits = Inr QUARANTINED"
    "apply_transition (Some QUARANTINED) ARCHIVED (sample_expiry PROPOSAL) sample_limits = Inr ARCHIVED"
    by (simp_all add: apply_transition_def table_defs guard_defs guard_ttl_expired_def timedelta_days_def sample_evidence_defs)
  from life.move [OF life.move [OF life.unborn this(1)] this(2)] show ?thesis
    using sample_wf sample_limits_ok by (fastforce simp: sample_evidence_defs)
qed

lemma sample_life_distiller:
  "\<exists>h. life DISTILLER TierB LESSON h (Some CANDIDATE)"
proof -
  have "apply_transition None QUARANTINED (sample_birth DISTILLER) sample_limits = Inr QUARANTINED"
    by (simp add: apply_transition_def table_defs guard_defs sample_evidence_defs)
  from life.move [OF life.move [OF life.unborn this(1)] sample_exit] show ?thesis
    using sample_wf sample_limits_ok by (fastforce simp: sample_evidence_defs)
qed

theorem apply_implements_plan_witness:
  "required_confirmations sample_corroboration sample_limits \<le> 2 \<and>
   plan_step sample_corroboration sample_limits (Some QUARANTINED) CANDIDATE"
  using apply_implements_plan [OF sample_wf(3), of sample_limits "Some QUARANTINED" CANDIDATE CANDIDATE] sample_exit
  by (simp add: required_confirmations_def sample_evidence_defs SHADOW_CONFIRM_MIN_INDEPENDENT_def)

theorem proposal_never_retrievable_witness:
  "\<exists>h. life PROPOSAL TierB LESSON h (Some ARCHIVED) \<and> ARCHIVED \<notin> RETRIEVABLE_STATUSES"
  using sample_life_proposal proposal_never_retrievable by blast


theorem no_single_principal_moves_witness:
  "apply_transition (Some CANDIDATE) VALIDATED sample_promotion sample_limits = Inr VALIDATED \<and>
   2 \<le> promotion_distinct_principals sample_promotion"
proof -
  have "apply_transition (Some CANDIDATE) VALIDATED sample_promotion sample_limits = Inr VALIDATED"
    by (simp add: apply_transition_def table_defs guard_candidate_to_validated_def sample_evidence_defs)
  then show ?thesis using no_single_principal_moves [OF default_limits sample_wf(4)] by fastforce
qed


end
