(* ===== verification/Memory.thy ===== *)
theory Memory
  imports Ids State_Machine
begin

text \<open>
  Provenance and new items: \<open>src/src/tracebed/domain/memory.py\<close>. A jsonb value is \<open>json\<close>, an object
  is its list of entries in insertion order. Parsing the fields is done in the order the code
  evaluates its keyword arguments, so the first error is the one raised. The parameter \<open>py_str\<close> is
  \<open>str()\<close> of a value that is not a string; nothing is assumed about it.
\<close>

section \<open>Provenance\<close>

datatype json = JNull | JBool bool | JInt int | JFloat pyfloat | JStr string | JList "json list" | JObj "(string \<times> json) list"

record provenance =
  cls :: provenance_class
  trace_ids :: "run_id list"
  verdict_id :: "uuid option"
  tool_refs :: "string list"
  input_sig_hashes :: "byte list list"
  prov_run_id :: "run_id option"
  principal :: "principal_id option"

definition class_value :: "provenance_class \<Rightarrow> string" where
  "class_value c =
     (case c of PARSER \<Rightarrow> ''parser'' | DISTILLER \<Rightarrow> ''distiller'' | HUMAN_VERDICT \<Rightarrow> ''human_verdict''
              | PROPOSAL \<Rightarrow> ''proposal'' | OPERATOR \<Rightarrow> ''operator'')"

definition all_classes :: "provenance_class list" where
  "all_classes = [PARSER, DISTILLER, HUMAN_VERDICT, PROPOSAL, OPERATOR]"

text \<open>\<open>ProvenanceClass(value)\<close>: the member with that value, or ValueError.\<close>

definition class_of_value :: "json \<Rightarrow> provenance_class res" where
  "class_of_value v =
     (case v of
        JStr s \<Rightarrow> (case find (\<lambda>c. class_value c = s) all_classes of Some c \<Rightarrow> ok c | None \<Rightarrow> raise ValueError)
      | _ \<Rightarrow> raise ValueError)"

text \<open>\<open>bytes.hex\<close> and \<open>bytes.fromhex\<close>, which skips white space between bytes.\<close>

definition bytes_hex :: "byte list \<Rightarrow> string" where
  "bytes_hex bs = concat (map (\<lambda>b. hex_of 2 (uint b)) bs)"

definition ascii_space :: "char \<Rightarrow> bool" where
  "ascii_space c = (let n = of_char c :: nat in n = 32 \<or> (9 \<le> n \<and> n \<le> 13))"

fun bytes_fromhex :: "string \<Rightarrow> byte list res" where
  "bytes_fromhex [] = ok []"
| "bytes_fromhex [c] = (if ascii_space c then ok [] else raise ValueError)"
| "bytes_fromhex (c # d # cs) =
     (if ascii_space c then bytes_fromhex (d # cs)
      else case (hex_value c, hex_value d) of
             (Some h, Some l) \<Rightarrow> bind_res (bytes_fromhex cs) (\<lambda>bs. ok (word_of_int (h * 16 + l) # bs))
           | _ \<Rightarrow> raise ValueError)"

definition to_json :: "provenance \<Rightarrow> (string \<times> json) list" where
  "to_json p =
     [(''class'', JStr (class_value (cls p)))]
     @ (if trace_ids p \<noteq> [] then [(''trace_ids'', JList (map (JStr \<circ> uuid_str \<circ> run_value) (trace_ids p)))] else [])
     @ (case verdict_id p of None \<Rightarrow> [] | Some v \<Rightarrow> [(''verdict_id'', JStr (uuid_str v))])
     @ (if tool_refs p \<noteq> [] then [(''tool_refs'', JList (map JStr (tool_refs p)))] else [])
     @ (if input_sig_hashes p \<noteq> [] then [(''input_sig_hashes'', JList (map (JStr \<circ> bytes_hex) (input_sig_hashes p)))] else [])
     @ (case prov_run_id p of None \<Rightarrow> [] | Some r \<Rightarrow> [(''run_id'', JStr (uuid_str (run_value r)))])
     @ (case principal p of None \<Rightarrow> [] | Some r \<Rightarrow> [(''principal'', JStr (uuid_str (principal_value r)))])"

definition falsy :: "json \<Rightarrow> bool" where
  "falsy v = (v \<in> {JNull, JBool False, JInt 0, JFloat (Fin 0), JStr [], JList [], JObj []})"

text \<open>\<open>str(value)\<close>, \<open>raw.get(key)\<close> where an absent key and a null read alike, and the inner \<open>_seq\<close>.\<close>

definition str_of :: "(json \<Rightarrow> string) \<Rightarrow> json \<Rightarrow> string" where
  "str_of py_str v = (case v of JStr s \<Rightarrow> s | _ \<Rightarrow> py_str v)"

definition get :: "(string \<times> json) list \<Rightarrow> string \<Rightarrow> json" where
  "get raw key = (case map_of raw key of None \<Rightarrow> JNull | Some v \<Rightarrow> v)"

definition seq_field :: "(string \<times> json) list \<Rightarrow> string \<Rightarrow> json list res" where
  "seq_field raw key =
     (let value = (let v = get raw key in if falsy v then JList [] else v)
      in case value of JList xs \<Rightarrow> ok xs | _ \<Rightarrow> raise ProvenanceIncomplete)"

definition opt_field :: "(json \<Rightarrow> 'a res) \<Rightarrow> json \<Rightarrow> 'a option res" where
  "opt_field f v = (if v = JNull then ok None else bind_res (f v) (\<lambda>x. ok (Some x)))"

definition from_json :: "(json \<Rightarrow> string) \<Rightarrow> (string \<times> json) list \<Rightarrow> provenance res" where
  "from_json py_str raw =
     (let parse_id = (\<lambda>v. typed_id_init (ArgStr (str_of py_str v))) in
      case map_of raw ''class'' of
        None \<Rightarrow> raise ProvenanceIncomplete
      | Some c \<Rightarrow>
          (case class_of_value c of
             Inl _ \<Rightarrow> raise ProvenanceIncomplete
           | Inr klass \<Rightarrow>
               bind_res (bind_res (seq_field raw ''trace_ids'') (map_res parse_id)) (\<lambda>traces.
               bind_res (opt_field (\<lambda>v. uuid_of_str (str_of py_str v)) (get raw ''verdict_id'')) (\<lambda>verdict.
               bind_res (seq_field raw ''tool_refs'') (\<lambda>tools.
               bind_res (bind_res (seq_field raw ''input_sig_hashes'') (map_res (\<lambda>h. bytes_fromhex (str_of py_str h)))) (\<lambda>sigs.
               bind_res (opt_field parse_id (get raw ''run_id'')) (\<lambda>run.
               bind_res (opt_field parse_id (get raw ''principal'')) (\<lambda>prin.
                 ok \<lparr>cls = klass, trace_ids = map RunId traces, verdict_id = verdict, tool_refs = map (str_of py_str) tools,
                     input_sig_hashes = sigs, prov_run_id = map_option RunId run, principal = map_option PrincipalId prin\<rparr>))))))))"

definition REQUIRED_PROVENANCE_FIELDS :: "provenance_class \<Rightarrow> string list option" where
  "REQUIRED_PROVENANCE_FIELDS c =
     (case c of PARSER \<Rightarrow> Some [''trace_ids''] | DISTILLER \<Rightarrow> Some [''trace_ids''] | HUMAN_VERDICT \<Rightarrow> Some [''verdict_id'']
              | PROPOSAL \<Rightarrow> Some [''run_id''] | OPERATOR \<Rightarrow> Some [''principal''])"

text \<open>What \<open>getattr(p, name)\<close> can be, as far as \<open>_is_absent\<close> looks at it.\<close>

datatype attr = AttrNone | AttrSized nat | AttrObject

definition opt_attr :: "'a option \<Rightarrow> attr" where
  "opt_attr v = (case v of None \<Rightarrow> AttrNone | Some _ \<Rightarrow> AttrObject)"

definition provenance_attr :: "provenance \<Rightarrow> string \<Rightarrow> attr" where
  "provenance_attr p name =
     (if name = ''trace_ids'' then AttrSized (length (trace_ids p))
      else if name = ''verdict_id'' then opt_attr (verdict_id p)
      else if name = ''tool_refs'' then AttrSized (length (tool_refs p))
      else if name = ''input_sig_hashes'' then AttrSized (length (input_sig_hashes p))
      else if name = ''run_id'' then opt_attr (prov_run_id p)
      else if name = ''principal'' then opt_attr (principal p)
      else AttrObject)"

definition is_absent :: "attr \<Rightarrow> bool" where
  "is_absent v = (case v of AttrNone \<Rightarrow> True | AttrSized n \<Rightarrow> n = 0 | AttrObject \<Rightarrow> False)"

definition validate_provenance :: "provenance \<Rightarrow> unit res" where
  "validate_provenance p =
     (case REQUIRED_PROVENANCE_FIELDS (cls p) of
        None \<Rightarrow> raise ProvenanceIncomplete
      | Some required \<Rightarrow>
          (let missing = filter (\<lambda>name. is_absent (provenance_attr p name)) required
           in if missing \<noteq> [] then raise ProvenanceIncomplete else ok ()))"

section \<open>New items\<close>

record new_memory_item =
  nm_scope_type :: scope_type
  nm_scope_id :: "uuid option"
  nm_mem_type :: mem_type
  nm_kind :: string
  nm_lane :: lane
  nm_trust_tier :: trust_tier
  nm_status :: status
  nm_content :: string
  nm_token_count :: int
  nm_provenance :: provenance
  nm_subject_tag :: "string option"
  nm_cluster_id :: "uuid option"
  nm_ttl_class :: "string option"
  nm_valid_from :: "datetime option"
  nm_valid_to :: "datetime option"
  nm_schema_version :: int
  nm_id :: "memory_id option"
  nm_extra :: "(string \<times> json) list"

definition new_memory_post_init :: "new_memory_item \<Rightarrow> sm_error + new_memory_item" where
  "new_memory_post_init i =
     bind_res (assert_legal_creation_status (nm_status i)) (\<lambda>_.
       if nm_scope_type i \<noteq> PROJECT_SHARED \<and> nm_scope_id i = None then Inl (Raised ValueError)
       else if nm_scope_type i = PROJECT_SHARED \<and> nm_scope_id i \<noteq> None then Inl (Raised ValueError)
       else if nm_token_count i < 0 then Inl (Raised ValueError)
       else if py_strip (nm_content i) = [] then Inl (Raised ValueError)
       else Inr i)"

section \<open>Lemmas\<close>

definition wf_provenance :: "provenance \<Rightarrow> bool" where
  "wf_provenance p \<longleftrightarrow>
     (\<forall>r\<in>set (trace_ids p). run_value r \<in> {0..<2 ^ 128}) \<and>
     (\<forall>v\<in>set_option (verdict_id p). v \<in> {0..<2 ^ 128}) \<and>
     (\<forall>r\<in>set_option (prov_run_id p). run_value r \<in> {0..<2 ^ 128}) \<and>
     (\<forall>r\<in>set_option (principal p). principal_value r \<in> {0..<2 ^ 128})"

lemma class_of_class_value [simp]: "class_of_value (JStr (class_value c)) = ok c"
  by (cases c) (simp_all add: class_of_value_def class_value_def all_classes_def)

lemma map_of_append: "map_of (xs @ ys) k = (case map_of xs k of None \<Rightarrow> map_of ys k | Some v \<Rightarrow> Some v)"
  by (simp add: map_add_def)

lemma bytes_fromhex_hex [simp]: "bytes_fromhex (bytes_hex bs) = ok bs"
proof (induction bs)
  case (Cons b bs)
  have b: "0 \<le> uint b" "uint b < 256" using uint_lt2p [of b] by auto
  define h l where "h = uint b div 16 mod 16" and "l = uint b mod 16"
  have hl: "0 \<le> h" "h < 16" "0 \<le> l" "l < 16" by (auto simp: h_def l_def)
  have sum: "h * 16 + l = uint b" proof -
    have "uint b div 16 < 16" using b(2) by (simp add: div_less_iff_less_mult)
    moreover have "0 \<le> uint b div 16" using b(1) by (simp add: pos_imp_zdiv_nonneg_iff)
    ultimately show ?thesis by (simp add: h_def l_def mod_pos_pos_trivial)
  qed
  have "\<not> ascii_space (hex_char h)"
    using of_char_hex_char [OF hl(1,2)] hl(1) by (auto simp: ascii_space_def Let_def split: if_splits)
  moreover have "bytes_hex (b # bs) = hex_char h # hex_char l # bytes_hex bs"
    by (simp add: bytes_hex_def numeral_2_eq_2 h_def l_def)
  ultimately show ?case using Cons.IH hl sum by simp
qed (simp add: bytes_hex_def)

lemma map_of_opt_entry: "map_of (case x of None \<Rightarrow> [] | Some v \<Rightarrow> [(k, f v)]) k' = (if k' = k then map_option f x else None)"
  by (cases x) auto

lemma map_of_if_entry: "map_of (if b then [(k, v)] else []) k' = (if b \<and> k' = k then Some v else None)"
  by simp

lemma to_json_get:
  "map_of (to_json p) ''class'' = Some (JStr (class_value (cls p)))"
  "get (to_json p) ''trace_ids'' = (if trace_ids p = [] then JNull else JList (map (JStr \<circ> uuid_str \<circ> run_value) (trace_ids p)))"
  "get (to_json p) ''verdict_id'' = (case verdict_id p of None \<Rightarrow> JNull | Some v \<Rightarrow> JStr (uuid_str v))"
  "get (to_json p) ''tool_refs'' = (if tool_refs p = [] then JNull else JList (map JStr (tool_refs p)))"
  "get (to_json p) ''input_sig_hashes'' = (if input_sig_hashes p = [] then JNull else JList (map (JStr \<circ> bytes_hex) (input_sig_hashes p)))"
  "get (to_json p) ''run_id'' = (case prov_run_id p of None \<Rightarrow> JNull | Some r \<Rightarrow> JStr (uuid_str (run_value r)))"
  "get (to_json p) ''principal'' = (case principal p of None \<Rightarrow> JNull | Some r \<Rightarrow> JStr (uuid_str (principal_value r)))"
  unfolding get_def to_json_def map_of_append map_of_opt_entry map_of_if_entry
  by (simp_all split: option.split)

lemma seq_field_list: "get raw key = (if xs = [] then JNull else JList (map f xs)) \<Longrightarrow> seq_field raw key = ok (map f xs)"
  by (simp add: seq_field_def falsy_def split: if_splits)

lemma map_res_map: "map_res f (map g xs) = map_res (f \<circ> g) xs"
  by (induction xs) simp_all

lemma typed_id_str: "0 \<le> u \<Longrightarrow> u < 2 ^ 128 \<Longrightarrow> typed_id_init (ArgStr (uuid_str u)) = ok u"
  by (simp add: typed_id_init_def)

lemma strip_by_Nil: "strip_by p s = [] \<longleftrightarrow> (\<forall>c\<in>set s. p c)"
proof -
  have "(\<forall>c\<in>set (dropWhile p s). p c) \<longleftrightarrow> (\<forall>c\<in>set s. p c)" by (induction s) auto
  then show ?thesis by (simp add: strip_by_def dropWhile_eq_Nil_conv)
qed

lemma legal_creation_iff: "assert_legal_creation_status s = Inr u \<longleftrightarrow> s \<in> {CANDIDATE, QUARANTINED, PINNED}"
  by (simp add: assert_legal_creation_status_def LEGAL_CREATION_STATUSES_def table_defs)

section \<open>Properties\<close>

text \<open>
  C29. The persisted form loses nothing: reading back the jsonb shape of any provenance, whose UUIDs are
  128-bit values, gives that provenance.
\<close>

theorem provenance_roundtrip:
  assumes "wf_provenance p" shows "from_json py_str (to_json p) = ok p"
proof -
  have "map_res (\<lambda>v. typed_id_init (ArgStr (str_of py_str v))) (map (JStr \<circ> uuid_str \<circ> run_value) (trace_ids p))
      = ok (map run_value (trace_ids p))"
    using assms unfolding map_res_map by (intro map_res_total) (auto simp: typed_id_str str_of_def wf_provenance_def)
  moreover have "map_res (\<lambda>h. bytes_fromhex (str_of py_str h)) (map (JStr \<circ> bytes_hex) (input_sig_hashes p)) = ok (input_sig_hashes p)"
    using map_res_total [of "input_sig_hashes p" "\<lambda>h. ok h" "\<lambda>h. h"] by (simp add: map_res_map o_def str_of_def)
  moreover have "opt_field (\<lambda>v. uuid_of_str (str_of py_str v)) (get (to_json p) ''verdict_id'') = ok (verdict_id p)"
    "opt_field (\<lambda>v. typed_id_init (ArgStr (str_of py_str v))) (get (to_json p) ''run_id'') = ok (map_option run_value (prov_run_id p))"
    "opt_field (\<lambda>v. typed_id_init (ArgStr (str_of py_str v))) (get (to_json p) ''principal'')
       = ok (map_option principal_value (principal p))"
    using assms by (auto simp: opt_field_def to_json_get str_of_def typed_id_str wf_provenance_def split: option.splits)
  ultimately show ?thesis
    by (simp add: from_json_def to_json_get(1) seq_field_list [OF to_json_get(2)] seq_field_list [OF to_json_get(4)]
        seq_field_list [OF to_json_get(5)] Let_def o_def str_of_def option.map_comp option.map_ident)
qed

text \<open>
  Provenance complete or rejected: the check passes exactly when the row's class points at its
  evidence, which is at least one trace, the verdict, the proposing run or the operator.
\<close>

theorem validate_provenance_iff:
  "validate_provenance p = ok () \<longleftrightarrow>
     (case cls p of
        PARSER \<Rightarrow> trace_ids p \<noteq> [] | DISTILLER \<Rightarrow> trace_ids p \<noteq> []
      | HUMAN_VERDICT \<Rightarrow> verdict_id p \<noteq> None | PROPOSAL \<Rightarrow> prov_run_id p \<noteq> None | OPERATOR \<Rightarrow> principal p \<noteq> None)"
  by (simp add: validate_provenance_def REQUIRED_PROVENANCE_FIELDS_def provenance_attr_def is_absent_def opt_attr_def
      split: provenance_class.split option.splits)


section \<open>Witnesses\<close>

definition sample_provenance :: provenance where
  "sample_provenance = \<lparr>cls = DISTILLER, trace_ids = [RunId 7, RunId 9], verdict_id = None, tool_refs = [''bash''],
     input_sig_hashes = [[1, 255]], prov_run_id = Some (RunId 3), principal = None\<rparr>"

theorem provenance_roundtrip_witness:
  "wf_provenance sample_provenance \<and> from_json (\<lambda>_. []) (to_json sample_provenance) = ok sample_provenance"
proof -
  have "wf_provenance sample_provenance" by (simp add: wf_provenance_def sample_provenance_def)
  then show ?thesis using provenance_roundtrip by blast
qed
end
