(* ===== verification/Independence.thy ===== *)
theory Independence
  imports State_Machine
begin

text \<open>
  From run ids to evidence: \<open>src/src/tracebed/workers/independence.py\<close>. The trace index behind
  \<open>TracePrincipalLookupPort.lookup\<close> is the parameter \<open>lookup\<close>; where a theorem needs it, the
  documented contract is the named hypothesis \<open>honest_lookup\<close>: a row returned for a run is that run's.
\<close>

section \<open>Definitions\<close>

record confirming_run =
  cr_run_id :: run_id
  cr_principal_id :: principal_id
  cr_input_signature_hash :: "byte list"

type_synonym trace_lookup = "project_id \<Rightarrow> run_id \<Rightarrow> confirming_run option"

text \<open>The first loop: distinct run ids in order, at most the bound; \<open>seen\<close> is \<open>set deduped\<close>.\<close>

fun dedup_runs :: "run_id list \<Rightarrow> run_id list \<Rightarrow> run_id list" where
  "dedup_runs [] deduped = deduped"
| "dedup_runs (r # rs) deduped =
     (if r \<in> set deduped then dedup_runs rs deduped
      else let deduped' = deduped @ [r]
           in if length deduped' \<ge> MAX_CONFIRMATIONS_CONSIDERED then deduped' else dedup_runs rs deduped')"

fun resolve_runs :: "trace_lookup \<Rightarrow> project_id \<Rightarrow> bool \<Rightarrow> run_id list \<Rightarrow> shadow_confirmation list \<Rightarrow> shadow_confirmation list res" where
  "resolve_runs lookup p include_absent [] acc = ok acc"
| "resolve_runs lookup p include_absent (r # rs) acc =
     (case lookup p r of
        None \<Rightarrow> resolve_runs lookup p include_absent rs acc
      | Some found \<Rightarrow>
          if cr_run_id found \<noteq> r then raise TracebedError
          else case mk_shadow_confirmation (cr_run_id found) (cr_principal_id found) (cr_input_signature_hash found) of
                 Inl ValueError \<Rightarrow> resolve_runs lookup p include_absent rs acc
               | Inl exc \<Rightarrow> raise exc
               | Inr confirmation \<Rightarrow>
                   if \<not> include_absent \<and> is_absent_signature (sc_input_signature_hash confirmation)
                   then resolve_runs lookup p include_absent rs acc
                   else resolve_runs lookup p include_absent rs (acc @ [confirmation]))"

definition build_confirmations :: "trace_lookup \<Rightarrow> project_id \<Rightarrow> run_id list \<Rightarrow> bool \<Rightarrow> shadow_confirmation list res" where
  "build_confirmations lookup p run_ids include_absent = resolve_runs lookup p include_absent (dedup_runs run_ids []) []"

definition independent_of :: "shadow_confirmation \<Rightarrow> shadow_confirmation \<Rightarrow> bool res" where
  "independent_of a b =
     (if is_absent_signature (sc_input_signature_hash a) \<or> is_absent_signature (sc_input_signature_hash b) then ok False
      else bind_res (independent_confirmations [a, b] (Some 2)) (\<lambda>n. ok (n \<ge> 2)))"

definition count_independent :: "trace_lookup \<Rightarrow> project_id \<Rightarrow> run_id list \<Rightarrow> int option \<Rightarrow> nat res" where
  "count_independent lookup p run_ids at_least =
     bind_res (build_confirmations lookup p run_ids False) (\<lambda>cs. independent_confirmations cs at_least)"

section \<open>What is resolved\<close>

definition honest_lookup :: "trace_lookup \<Rightarrow> bool" where
  "honest_lookup lookup \<longleftrightarrow> (\<forall>p r found. lookup p r = Some found \<longrightarrow> cr_run_id found = r)"

text \<open>The confirmation a run stands for, if its row is usable.\<close>

definition confirmation_of :: "trace_lookup \<Rightarrow> project_id \<Rightarrow> bool \<Rightarrow> run_id \<Rightarrow> shadow_confirmation option" where
  "confirmation_of lookup p include_absent r =
     (case lookup p r of
        None \<Rightarrow> None
      | Some f \<Rightarrow>
          if length (cr_input_signature_hash f) = SIG_HASH_LEN \<and> (include_absent \<or> \<not> is_absent_signature (cr_input_signature_hash f))
          then Some \<lparr>sc_run_id = r, sc_principal_id = cr_principal_id f, sc_input_signature_hash = cr_input_signature_hash f\<rparr>
          else None)"

definition first_distinct :: "run_id list \<Rightarrow> run_id list" where
  "first_distinct rs = take MAX_CONFIRMATIONS_CONSIDERED (rev (remdups (rev rs)))"

lemma firsts_snoc: "rev (remdups (rev (xs @ [x]))) = rev (remdups (rev xs)) @ (if x \<in> set xs then [] else [x])"
  by simp

lemma firsts_prefix: "\<exists>zs. rev (remdups (rev (xs @ ys))) = rev (remdups (rev xs)) @ zs"
proof (induction ys rule: rev_induct)
  case (snoc y ys)
  then show ?case using firsts_snoc [of "xs @ ys" y] by (metis append.assoc)
qed simp

lemma dedup_runs_spec:
  assumes "deduped = rev (remdups (rev before))" "length deduped < MAX_CONFIRMATIONS_CONSIDERED"
  shows "dedup_runs rs deduped = take MAX_CONFIRMATIONS_CONSIDERED (rev (remdups (rev (before @ rs))))"
  using assms
proof (induction rs arbitrary: deduped before)
  case (Cons r rs)
  define d where "d = rev (remdups (rev (before @ [r])))"
  obtain zs where zs: "rev (remdups (rev (before @ r # rs))) = d @ zs" using firsts_prefix [of "before @ [r]" rs] by (auto simp: d_def)
  have d: "d = (if r \<in> set deduped then deduped else deduped @ [r])" using Cons.prems(1) by (simp add: d_def)
  have ih: "length d < MAX_CONFIRMATIONS_CONSIDERED \<Longrightarrow> dedup_runs rs d = take MAX_CONFIRMATIONS_CONSIDERED (d @ zs)"
    using Cons.IH [of d "before @ [r]"] zs by (simp add: d_def)
  show ?case
  proof (cases "length d < MAX_CONFIRMATIONS_CONSIDERED")
    case True
    then show ?thesis using ih d zs by (auto simp: Let_def)
  next
    case False
    then show ?thesis using d zs Cons.prems(2) by (auto simp: Let_def split: if_splits)
  qed
qed simp

lemma dedup_runs_eq: "dedup_runs rs [] = first_distinct rs"
  using dedup_runs_spec [of "[]" "[]" rs] by (simp add: first_distinct_def MAX_CONFIRMATIONS_CONSIDERED_def)

lemma first_distinct_props: "distinct (first_distinct rs)" "set (first_distinct rs) \<subseteq> set rs"
  "length (first_distinct rs) \<le> MAX_CONFIRMATIONS_CONSIDERED"
  by (auto simp: first_distinct_def dest: in_set_takeD)

lemma resolve_runs_step:
  assumes "\<forall>f. lookup p r = Some f \<longrightarrow> cr_run_id f = r"
  shows "resolve_runs lookup p ia (r # rs) acc =
     resolve_runs lookup p ia rs (acc @ (case confirmation_of lookup p ia r of None \<Rightarrow> [] | Some c \<Rightarrow> [c]))"
  using assms by (cases "lookup p r") (auto simp: confirmation_of_def mk_shadow_confirmation_def)

lemma resolve_runs_eq:
  assumes "honest_lookup lookup"
  shows "resolve_runs lookup p ia rs acc = ok (acc @ List.map_filter (confirmation_of lookup p ia) rs)"
  using assms
  by (induction rs arbitrary: acc)
     (auto simp: honest_lookup_def resolve_runs_step map_filter_simps simp del: resolve_runs.simps(2) split: option.split)

lemma build_confirmations_eq:
  "honest_lookup lookup \<Longrightarrow>
     build_confirmations lookup p rs ia = ok (List.map_filter (confirmation_of lookup p ia) (first_distinct rs))"
  by (simp add: build_confirmations_def resolve_runs_eq dedup_runs_eq)

lemma resolve_runs_ok:
  "resolve_runs lookup p ia rs acc = ok cs \<Longrightarrow> cs = acc @ List.map_filter (confirmation_of lookup p ia) rs"
proof (induction rs arbitrary: acc)
  case (Cons r rs)
  have "\<forall>f. lookup p r = Some f \<longrightarrow> cr_run_id f = r" using Cons.prems by (auto split: if_splits)
  from resolve_runs_step [of lookup p r ia rs acc, OF this] show ?case
    using Cons by (auto simp: map_filter_simps simp del: resolve_runs.simps(2) split: option.splits)
qed (simp add: map_filter_simps)

lemma build_confirmations_ok:
  "build_confirmations lookup p rs ia = ok cs \<Longrightarrow> cs = List.map_filter (confirmation_of lookup p ia) (first_distinct rs)"
  using resolve_runs_ok [of lookup p ia "first_distinct rs" "[]" cs] by (simp add: build_confirmations_def dedup_runs_eq)

lemma confirmation_of_Some:
  "confirmation_of lookup p ia r = Some c \<longleftrightarrow>
     (\<exists>f. lookup p r = Some f \<and> sc_run_id c = r \<and> sc_principal_id c = cr_principal_id f \<and>
        sc_input_signature_hash c = cr_input_signature_hash f \<and> wf_confirmation c \<and>
        (ia \<or> \<not> is_absent_signature (sc_input_signature_hash c)))"
  by (cases "lookup p r") (auto simp: confirmation_of_def wf_confirmation_def)

lemma set_map_filter_iff: "x \<in> set (List.map_filter f xs) \<longleftrightarrow> (\<exists>a\<in>set xs. f a = Some x)"
  by (induction xs) (auto simp: map_filter_simps split: option.splits)

lemma build_confirmations_mem:
  "build_confirmations lookup p rs ia = ok cs \<Longrightarrow>
     c \<in> set cs \<longleftrightarrow> (\<exists>r\<in>set (first_distinct rs). confirmation_of lookup p ia r = Some c)"
  using build_confirmations_ok [of lookup p rs ia cs] by (auto simp: set_map_filter_iff)

lemma build_confirmations_wf:
  assumes "build_confirmations lookup p rs ia = ok cs" shows "\<forall>c\<in>set cs. wf_confirmation c"
  using build_confirmations_mem [OF assms] by (auto simp: confirmation_of_Some)

lemma length_map_filter_le: "length (List.map_filter f xs) \<le> length xs"
  by (induction xs) (auto simp: map_filter_simps split: option.splits)

lemma distinct_map_filter:
  "distinct xs \<Longrightarrow> (\<And>a b. f a = Some b \<Longrightarrow> g b = a) \<Longrightarrow> distinct (map g (List.map_filter f xs))"
  by (induction xs) (auto simp: map_filter_simps set_map_filter_iff split: option.splits)

lemma build_confirmations_considered:
  assumes "build_confirmations lookup p rs ia = ok cs" shows "considered cs = cs"
  using build_confirmations_ok [OF assms] length_map_filter_le first_distinct_props(3) [of rs]
  by (auto simp: considered_def intro: le_trans)

lemma independent_of_eq:
  assumes "wf_confirmation a" "wf_confirmation b"
  shows "independent_of a b = ok (\<not> is_absent_signature (sc_input_signature_hash a) \<and>
     \<not> is_absent_signature (sc_input_signature_hash b) \<and> compatible a b)"
proof -
  have [simp]: "considered [a, b] = [a, b]" by (simp add: considered_def MAX_CONFIRMATIONS_CONSIDERED_def)
  obtain k where k: "independent_confirmations [a, b] (Some 2) = ok k"
    "2 \<le> k \<longleftrightarrow> (\<exists>i j. i < length [a, b] \<and> j < length [a, b] \<and> compatible ([a, b] ! i) ([a, b] ! j))"
    using independent_confirmations_two [of "[a, b]"] assms by auto
  have "(\<exists>i j. i < length [a, b] \<and> j < length [a, b] \<and> compatible ([a, b] ! i) ([a, b] ! j)) \<longleftrightarrow> compatible a b"
    by (force simp: less_Suc_eq compatible_commute)
  then show ?thesis using k by (simp add: independent_of_def)
qed

section \<open>Properties\<close>

text \<open>
  C30. Resolution never manufactures evidence: with an honest trace index the result is total, lists
  each of the first 256 distinct runs at most once, and contains exactly the runs with a usable row;
  rows without a recorded input are left out unless asked for, and it never depends on a caller's word.
\<close>

theorem build_confirmations_exact:
  assumes "honest_lookup lookup"
  shows "\<exists>cs. build_confirmations lookup p rs ia = ok cs \<and> length cs \<le> MAX_CONFIRMATIONS_CONSIDERED \<and>
     distinct (map sc_run_id cs) \<and>
     (\<forall>c. c \<in> set cs \<longleftrightarrow> (\<exists>f. sc_run_id c \<in> set (first_distinct rs) \<and> lookup p (sc_run_id c) = Some f \<and>
        sc_principal_id c = cr_principal_id f \<and> sc_input_signature_hash c = cr_input_signature_hash f \<and>
        length (cr_input_signature_hash f) = SIG_HASH_LEN \<and> (ia \<or> cr_input_signature_hash f \<noteq> ABSENT_SIGNATURE)))"
proof -
  obtain cs where cs: "build_confirmations lookup p rs ia = ok cs" using build_confirmations_eq [OF assms] by blast
  have eq: "cs = List.map_filter (confirmation_of lookup p ia) (first_distinct rs)" using build_confirmations_ok [OF cs] .
  have "length cs \<le> MAX_CONFIRMATIONS_CONSIDERED"
    unfolding eq using length_map_filter_le first_distinct_props(3) le_trans by blast
  moreover have "distinct (map sc_run_id cs)"
    unfolding eq using distinct_map_filter first_distinct_props(1) by (metis confirmation_of_Some)
  moreover have "c \<in> set cs \<longleftrightarrow> (\<exists>f. sc_run_id c \<in> set (first_distinct rs) \<and> lookup p (sc_run_id c) = Some f \<and>
        sc_principal_id c = cr_principal_id f \<and> sc_input_signature_hash c = cr_input_signature_hash f \<and>
        length (cr_input_signature_hash f) = SIG_HASH_LEN \<and> (ia \<or> cr_input_signature_hash f \<noteq> ABSENT_SIGNATURE))" for c
    unfolding build_confirmations_mem [OF cs]
    by (auto simp: confirmation_of_Some wf_confirmation_def is_absent_signature_def) blast+
  ultimately show ?thesis using cs by blast
qed

text \<open>
  C31. The pairwise test is the guard's own definition, failing closed: it answers yes exactly for
  distinct runs of distinct principals in distinct clusters with both inputs recorded, and is symmetric.
\<close>

theorem independent_of_exact:
  assumes "wf_confirmation a" "wf_confirmation b"
  shows "independent_of a b = ok (sc_input_signature_hash a \<noteq> ABSENT_SIGNATURE \<and>
       sc_input_signature_hash b \<noteq> ABSENT_SIGNATURE \<and> compatible a b) \<and>
     independent_of b a = independent_of a b"
  using independent_of_eq [OF assms] independent_of_eq [OF assms(2,1)]
  by (auto simp: is_absent_signature_def compatible_commute)

section \<open>Witnesses\<close>

definition sample_lookup :: trace_lookup where
  "sample_lookup p r =
     (if run_value r \<in> {1, 2, 3}
      then Some \<lparr>cr_run_id = r, cr_principal_id = PrincipalId (run_value r), cr_input_signature_hash = sample_sig (if r = RunId 2 then 255 else 1)\<rparr>
      else None)"

lemma sample_sig_present [simp]: "sample_sig b \<noteq> ABSENT_SIGNATURE"
proof
  assume "sample_sig b = ABSENT_SIGNATURE"
  then have "hd (sample_sig b) = hd ABSENT_SIGNATURE" by simp
  then show False by (simp add: sample_sig_def ABSENT_SIGNATURE_def)
qed

lemma sample_lookup_honest: "honest_lookup sample_lookup"
  by (simp add: honest_lookup_def sample_lookup_def)

theorem build_confirmations_exact_witness:
  "\<exists>cs. build_confirmations sample_lookup (ProjectId 0) [RunId 1, RunId 1, RunId 4, RunId 2] False = ok cs \<and>
     map sc_run_id cs = [RunId 1, RunId 2] \<and> distinct (map sc_run_id cs)"
proof -
  obtain cs where cs: "build_confirmations sample_lookup (ProjectId 0) [RunId 1, RunId 1, RunId 4, RunId 2] False = ok cs"
    "distinct (map sc_run_id cs)"
    using build_confirmations_exact [OF sample_lookup_honest] by blast
  then have "map sc_run_id cs = [RunId 1, RunId 2]"
    by (simp add: build_confirmations_def sample_lookup_def mk_shadow_confirmation_def is_absent_signature_def
        SIG_HASH_LEN_def MAX_CONFIRMATIONS_CONSIDERED_def) auto
  with cs show ?thesis by (intro exI [of _ cs] conjI)
qed

theorem independent_of_exact_witness:
  "independent_of (sample_conf 1 1 1) (sample_conf 2 2 255) = ok True"
proof -
  have wf: "wf_confirmation (sample_conf r p b)" for r p b by (simp add: wf_confirmation_def sample_conf_def SIG_HASH_LEN_def)
  have "compatible (sample_conf 1 1 1) (sample_conf 2 2 255)"
    by (simp add: compatible_def sample_simps)
  then show ?thesis using independent_of_exact [OF wf wf, of 1 1 1 2 2 255] by (simp add: sample_conf_def)
qed
end
