(* ===== verification/Workers.thy ===== *)
theory Workers
  imports Memory Independence
begin

text \<open>
  What the batch workers under \<open>src/src/tracebed/workers\<close> share. A worker evaluates one row at a
  time; an evaluation either raises, or returns an outcome with the writes it persisted. The batch
  entry points build a tuple from a generator over the selected rows: an exception stops the batch
  and the writes persisted before it stay. The \<open>i\<close>-th evaluation of a batch reads the clock as
  \<open>clock i\<close>. The locale \<open>guarded_worker\<close> is the contract each worker is shown to keep.
\<close>

definition lift_error :: "'a res \<Rightarrow> sm_error + 'a" where
  "lift_error r = (case r of Inl e \<Rightarrow> Inl (Raised e) | Inr x \<Rightarrow> Inr x)"

lemma lift_error_simps [simp]: "lift_error (Inl e) = Inl (Raised e)" "lift_error (Inr x) = Inr x"
  by (simp_all add: lift_error_def)

lemma lift_error_Inr_iff [simp]: "lift_error r = Inr x \<longleftrightarrow> r = Inr x"
  by (cases r) simp_all

text \<open>\<open>try: new_status = apply(...) except GuardNotSatisfied as exc: ...\<close>\<close>

definition try_apply :: "sm_error + status \<Rightarrow> (guard_reason \<Rightarrow> 'a) \<Rightarrow> (status \<Rightarrow> 'a) \<Rightarrow> sm_error + 'a" where
  "try_apply r refused accepted =
     (case r of
        Inl (GuardNotSatisfied _ _ reason) \<Rightarrow> Inr (refused reason)
      | Inl err \<Rightarrow> Inl err
      | Inr new_status \<Rightarrow> Inr (accepted new_status))"

lemma try_apply_Inr_iff:
  "try_apply r f g = Inr x \<longleftrightarrow> (\<exists>c t reason. r = Inl (GuardNotSatisfied c t reason) \<and> x = f reason) \<or> (\<exists>s. r = Inr s \<and> x = g s)"
  by (auto simp: try_apply_def split: sum.splits sm_error.splits)

lemma try_apply_simps [simp]:
  "try_apply (Inl (GuardNotSatisfied c t reason)) f g = Inr (f reason)" "try_apply (Inr s) f g = Inr (g s)"
  by (simp_all add: try_apply_def)

lemma evidence_post_init_iff:
  "evidence_post_init e = ok e' \<longleftrightarrow> e' = e \<and> is_aware (now e) \<and> (\<forall>t\<in>set_option (status_changed_at e). is_aware t)"
  by (auto simp: evidence_post_init_def split: option.split)

lemma apply_transition_target: "apply_transition c t e l = Inr s \<Longrightarrow> s = t"
  by (simp add: apply_transition_simp)

lemma apply_on_edge:
  assumes "wf_evidence e" "(c, t) \<in> fst ` set TRANSITIONS"
  shows "(\<exists>r. apply_transition c t e l = Inl (GuardNotSatisfied c t r)) \<or> apply_transition c t e l = Inr t"
proof -
  obtain g where g: "map_of TRANSITIONS (c, t) = Some g" using assms(2) map_of_eq_None_iff [of TRANSITIONS "(c, t)"] by blast
  show ?thesis
  proof (cases "g e l")
    case (Inl x)
    then show ?thesis using g apply_never_raises [OF assms(1), of c t l x] by (simp add: apply_transition_def)
  next
    case (Inr out)
    then show ?thesis using g by (simp add: apply_transition_def)
  qed
qed

primrec batch :: "(nat \<Rightarrow> 'row \<Rightarrow> sm_error + ('out \<times> 'w list)) \<Rightarrow> nat \<Rightarrow> 'row list \<Rightarrow> (sm_error + 'out list) \<times> 'w list" where
  "batch evaluate i [] = (Inr [], [])"
| "batch evaluate i (row # rows) =
     (case evaluate i row of
        Inl e \<Rightarrow> (Inl e, [])
      | Inr (outcome, ws) \<Rightarrow>
          (let (rest, ws') = batch evaluate (Suc i) rows
           in (bind_res rest (\<lambda>os. Inr (outcome # os)), ws @ ws')))"

text \<open>\<open>all(...)\<close> and a filtering generator over a predicate that may raise.\<close>

primrec all_res :: "('a \<Rightarrow> bool res) \<Rightarrow> 'a list \<Rightarrow> bool res" where
  "all_res f [] = ok True"
| "all_res f (x # xs) = bind_res (f x) (\<lambda>b. if b then all_res f xs else ok False)"

primrec filter_res :: "('a \<Rightarrow> bool res) \<Rightarrow> 'a list \<Rightarrow> 'a list res" where
  "filter_res f [] = ok []"
| "filter_res f (x # xs) = bind_res (f x) (\<lambda>b. bind_res (filter_res f xs) (\<lambda>ys. ok (if b then x # ys else ys)))"

lemma all_res_total: "(\<And>x. x \<in> set xs \<Longrightarrow> f x = ok (g x)) \<Longrightarrow> all_res f xs = ok (\<forall>x\<in>set xs. g x)"
  by (induction xs) auto

lemma filter_res_total: "(\<And>x. x \<in> set xs \<Longrightarrow> f x = ok (g x)) \<Longrightarrow> filter_res f xs = ok (filter g xs)"
  by (induction xs) auto

text \<open>
  The contract: every persisted write is licensed by its row, an evaluation persists at most one, and
  on acceptable rows it returns.
\<close>

locale guarded_worker =
  fixes evaluate :: "nat \<Rightarrow> 'row \<Rightarrow> sm_error + ('out \<times> 'w list)"
    and licensed :: "'row \<Rightarrow> 'w \<Rightarrow> bool"
    and acceptable :: "'row \<Rightarrow> bool"
  assumes evaluate_licensed: "evaluate i row = Inr (outcome, ws) \<Longrightarrow> w \<in> set ws \<Longrightarrow> licensed row w"
    and evaluate_returns: "acceptable row \<Longrightarrow> \<exists>outcome ws. evaluate i row = Inr (outcome, ws)"
    and one_write: "evaluate i row = Inr (outcome, ws) \<Longrightarrow> length ws \<le> 1"
begin

lemma batch_licensed:
  "batch evaluate i rows = (res, ws) \<Longrightarrow> w \<in> set ws \<Longrightarrow> \<exists>row\<in>set rows. licensed row w"
proof (induction rows arbitrary: i res ws)
  case (Cons row rows)
  obtain rest ws' where b: "batch evaluate (Suc i) rows = (rest, ws')" by (meson surj_pair)
  show ?case
  proof (cases "evaluate i row")
    case (Inr r)
    obtain out us where r: "r = (out, us)" by (cases r)
    have "w \<in> set us \<or> w \<in> set ws'" using Cons.prems Inr r b by auto
    then show ?thesis using Cons.IH [OF b] evaluate_licensed [of i row out us w] Inr r by auto
  qed (use Cons.prems in simp)
qed simp

lemma batch_total:
  "\<forall>row\<in>set rows. acceptable row \<Longrightarrow>
     \<exists>outs ws. batch evaluate i rows = (Inr outs, ws) \<and> length outs = length rows \<and> length ws \<le> length rows"
proof (induction rows arbitrary: i)
  case (Cons row rows)
  obtain out ws where e: "evaluate i row = Inr (out, ws)" using evaluate_returns [of row i] Cons.prems by auto
  obtain outs ws' where "batch evaluate (Suc i) rows = (Inr outs, ws')" "length outs = length rows" "length ws' \<le> length rows"
    using Cons.IH Cons.prems by (meson list.set_intros(2))
  then show ?case using e one_write [OF e] by simp
qed simp

text \<open>An exception loses no earlier write and adds no later one.\<close>

lemma batch_error_prefix:
  assumes "\<forall>row\<in>set rows. acceptable row" "evaluate (i + length rows) bad = Inl e"
  shows "batch evaluate i (rows @ bad # later) = (Inl e, snd (batch evaluate i rows))"
  using assms
proof (induction rows arbitrary: i)
  case (Cons row rows)
  obtain out ws where e: "evaluate i row = Inr (out, ws)" using evaluate_returns [of row i] Cons.prems(1) by auto
  show ?case using Cons.IH [of "Suc i"] Cons.prems e by (simp add: split_def Let_def)
qed simp

end

end
