(* ===== verification/Shadow_Validator.thy ===== *)
theory Shadow_Validator
  imports Workers
begin

text \<open>
  The shadow validator, \<open>src/src/tracebed/workers/shadow_validator.py\<close>: the only way a quarantined
  row becomes a candidate. The repository's select is the list of rows handed to \<open>sv_run_once\<close>, its
  \<open>persist\<close> is the list of writes returned, the trace index is the parameter \<open>lookup\<close>, the clock a
  parameter, and the scoring epoch its \<open>epoch_id\<close>.
\<close>

section \<open>Definitions\<close>

record quarantined_row =
  qr_id :: memory_id
  qr_project_id :: project_id
  qr_status :: status
  qr_trust_tier :: trust_tier
  qr_mem_type :: mem_type
  qr_provenance :: provenance
  qr_status_changed_at :: "datetime option"
  qr_is_failure_lesson :: bool
  qr_confirming_run_ids :: "run_id list"

record shadow_write =
  sw_memory_id :: memory_id
  sw_from_status :: status
  sw_to_status :: status
  sw_now :: datetime
  sw_epoch_id :: int

record shadow_outcome =
  so_memory_id :: memory_id
  so_promoted :: bool
  so_to_status :: "status option"
  so_independent_count :: nat
  so_reason :: guard_reason

record shadow_batch_result =
  sb_rows_examined :: nat
  sb_outcomes :: "shadow_outcome list"

definition origin_runs :: "provenance \<Rightarrow> run_id set" where
  "origin_runs p =
     (let runs = set (trace_ids p)
      in case prov_run_id p of None \<Rightarrow> runs | Some r \<Rightarrow> insert r runs)"

definition sv_require_row :: "quarantined_row \<Rightarrow> project_id \<Rightarrow> unit res" where
  "sv_require_row row p =
     (if qr_project_id row \<noteq> p then raise TracebedError
      else if qr_status row \<noteq> QUARANTINED then raise TracebedError
      else ok ())"

definition resolve_confirmations :: "trace_lookup \<Rightarrow> project_id \<Rightarrow> quarantined_row \<Rightarrow> shadow_confirmation list res" where
  "resolve_confirmations lookup p row =
     (if cls (qr_provenance row) = PROPOSAL then ok []
      else
        (let origins = origin_runs (qr_provenance row);
             offered = filter (\<lambda>r. r \<notin> origins) (qr_confirming_run_ids row)
         in if offered = [] then ok []
            else
              bind_res (build_confirmations lookup p offered False) (\<lambda>confirmations.
              bind_res (build_confirmations lookup p (sorted_list_of_set origins) True) (\<lambda>origin_confirmations.
                if origin_confirmations = [] then ok confirmations
                else filter_res (\<lambda>c. all_res (\<lambda>origin. independent_of c origin) origin_confirmations) confirmations))))"

definition sv_evidence :: "datetime \<Rightarrow> quarantined_row \<Rightarrow> shadow_confirmation list \<Rightarrow> transition_evidence" where
  "sv_evidence t row cs =
     (base_evidence t (cls (qr_provenance row)) (qr_trust_tier row) (qr_mem_type row))
       \<lparr>is_failure_lesson := qr_is_failure_lesson row,
        status_changed_at := qr_status_changed_at row,
        confirmations := cs,
        has_verified_human_verdict := (cls (qr_provenance row) = HUMAN_VERDICT \<and> verdict_id (qr_provenance row) \<noteq> None)\<rparr>"

text \<open>The end of \<open>evaluate_one\<close>: ask the state machine, persist what it returned.\<close>

definition sv_decide ::
  "int \<Rightarrow> datetime \<Rightarrow> quarantined_row \<Rightarrow> nat \<Rightarrow> transition_evidence \<Rightarrow> transition_limits \<Rightarrow> sm_error + (shadow_outcome \<times> shadow_write list)" where
  "sv_decide epoch_id t row n evidence limits =
     try_apply (apply_transition (Some (qr_status row)) CANDIDATE evidence limits)
       (\<lambda>reason.
         (\<lparr>so_memory_id = qr_id row, so_promoted = False, so_to_status = None, so_independent_count = n, so_reason = reason\<rparr>, []))
       (\<lambda>new_status.
         (\<lparr>so_memory_id = qr_id row, so_promoted = True, so_to_status = Some new_status, so_independent_count = n, so_reason = NoReason\<rparr>,
          [\<lparr>sw_memory_id = qr_id row, sw_from_status = qr_status row, sw_to_status = new_status, sw_now = t, sw_epoch_id = epoch_id\<rparr>]))"

definition sv_evaluate_one ::
  "trace_lookup \<Rightarrow> int \<Rightarrow> project_id \<Rightarrow> effective_config \<Rightarrow> datetime \<Rightarrow> quarantined_row \<Rightarrow> sm_error + (shadow_outcome \<times> shadow_write list)" where
  "sv_evaluate_one lookup epoch_id p cfg t row =
     bind_res (lift_error (sv_require_row row p)) (\<lambda>_.
     bind_res (lift_error (limits_from_config cfg)) (\<lambda>limits.
     bind_res (lift_error (resolve_confirmations lookup p row)) (\<lambda>cs.
     bind_res (lift_error (independent_confirmations cs None)) (\<lambda>n.
     bind_res (lift_error (evidence_post_init (sv_evidence t row cs))) (\<lambda>evidence.
       sv_decide epoch_id t row n evidence limits)))))"

definition sv_run_once ::
  "trace_lookup \<Rightarrow> int \<Rightarrow> project_id \<Rightarrow> effective_config \<Rightarrow> (nat \<Rightarrow> datetime) \<Rightarrow> quarantined_row list \<Rightarrow>
     (sm_error + shadow_batch_result) \<times> shadow_write list" where
  "sv_run_once lookup epoch_id p cfg clock rows =
     (let (res, writes) = batch (\<lambda>i. sv_evaluate_one lookup epoch_id p cfg (clock i)) 0 rows
      in (bind_res res (\<lambda>outs. Inr \<lparr>sb_rows_examined = length rows, sb_outcomes = outs\<rparr>), writes))"

section \<open>What counts as a corroborator\<close>

text \<open>
  A usable trace row of an offered run that is not an origin, compatible with every resolved origin,
  none of which has an unrecorded input.
\<close>

definition corroborator :: "trace_lookup \<Rightarrow> project_id \<Rightarrow> quarantined_row \<Rightarrow> shadow_confirmation \<Rightarrow> bool" where
  "corroborator lookup p row c \<longleftrightarrow>
     (\<exists>r\<in>set (first_distinct (filter (\<lambda>r. r \<notin> origin_runs (qr_provenance row)) (qr_confirming_run_ids row))).
        confirmation_of lookup p False r = Some c) \<and>
     (\<forall>r\<in>set (first_distinct (sorted_list_of_set (origin_runs (qr_provenance row)))).
        \<forall>d. confirmation_of lookup p True r = Some d \<longrightarrow>
          \<not> is_absent_signature (sc_input_signature_hash d) \<and> compatible c d)"

lemma finite_origin_runs [simp]: "finite (origin_runs p)"
  by (simp add: origin_runs_def Let_def split: option.split)

lemma filter_origins:
  assumes cs: "build_confirmations lookup p offered False = ok cs"
    and os: "build_confirmations lookup p origins True = ok os"
  shows "filter_res (\<lambda>c. all_res (independent_of c) os) cs =
     ok (filter (\<lambda>c. \<forall>d\<in>set os. \<not> is_absent_signature (sc_input_signature_hash d) \<and> compatible c d) cs)"
proof (rule filter_res_total)
  fix c assume c: "c \<in> set cs"
  have wf: "wf_confirmation c" and "\<not> is_absent_signature (sc_input_signature_hash c)"
    using build_confirmations_mem [OF cs] c by (auto simp: confirmation_of_Some)
  then show "all_res (independent_of c) os = ok (\<forall>d\<in>set os. \<not> is_absent_signature (sc_input_signature_hash d) \<and> compatible c d)"
    using build_confirmations_wf [OF os] by (intro all_res_total) (simp add: independent_of_eq)
qed

lemma resolve_confirmations_eq:
  assumes "cls (qr_provenance row) \<noteq> PROPOSAL"
    "filter (\<lambda>r. r \<notin> origin_runs (qr_provenance row)) (qr_confirming_run_ids row) \<noteq> []"
    "build_confirmations lookup p (filter (\<lambda>r. r \<notin> origin_runs (qr_provenance row)) (qr_confirming_run_ids row)) False = ok cs"
    "build_confirmations lookup p (sorted_list_of_set (origin_runs (qr_provenance row))) True = ok os"
  shows "resolve_confirmations lookup p row =
     ok (filter (\<lambda>c. \<forall>d\<in>set os. \<not> is_absent_signature (sc_input_signature_hash d) \<and> compatible c d) cs)"
  using assms filter_origins [OF assms(3,4)] by (simp add: resolve_confirmations_def Let_def)

lemma resolve_confirmations_cases:
  assumes "resolve_confirmations lookup p row = ok cs"
  obtains "cls (qr_provenance row) = PROPOSAL" "cs = []"
  | "cls (qr_provenance row) \<noteq> PROPOSAL" "cs = []"
      "filter (\<lambda>r. r \<notin> origin_runs (qr_provenance row)) (qr_confirming_run_ids row) = []"
  | cs1 os where "cls (qr_provenance row) \<noteq> PROPOSAL"
      "build_confirmations lookup p (filter (\<lambda>r. r \<notin> origin_runs (qr_provenance row)) (qr_confirming_run_ids row)) False = ok cs1"
      "build_confirmations lookup p (sorted_list_of_set (origin_runs (qr_provenance row))) True = ok os"
      "cs = filter (\<lambda>c. \<forall>d\<in>set os. \<not> is_absent_signature (sc_input_signature_hash d) \<and> compatible c d) cs1"
proof -
  define offered where "offered = filter (\<lambda>r. r \<notin> origin_runs (qr_provenance row)) (qr_confirming_run_ids row)"
  consider "cls (qr_provenance row) = PROPOSAL" | "cls (qr_provenance row) \<noteq> PROPOSAL" "offered = []"
    | "cls (qr_provenance row) \<noteq> PROPOSAL" "offered \<noteq> []" by blast
  then show ?thesis
  proof cases
    case 1
    then show ?thesis using assms that(1) by (simp add: resolve_confirmations_def)
  next
    case 2
    then show ?thesis using assms that(2) by (simp add: resolve_confirmations_def offered_def)
  next
    case 3
    then obtain cs1 os where b: "build_confirmations lookup p offered False = ok cs1"
      "build_confirmations lookup p (sorted_list_of_set (origin_runs (qr_provenance row))) True = ok os"
      using assms by (auto simp: resolve_confirmations_def offered_def [symmetric] res_simps)
    then show ?thesis using that(3) 3 assms resolve_confirmations_eq [of row lookup p cs1 os] by (simp add: offered_def)
  qed
qed

lemma resolve_confirmations_ok:
  assumes "resolve_confirmations lookup p row = ok cs"
  shows "(\<forall>c\<in>set cs. wf_confirmation c) \<and> length cs \<le> MAX_CONFIRMATIONS_CONSIDERED \<and>
     (\<forall>c. c \<in> set cs \<longleftrightarrow> cls (qr_provenance row) \<noteq> PROPOSAL \<and> corroborator lookup p row c)"
  using assms
proof (cases rule: resolve_confirmations_cases)
  case (3 cs1 os)
  have "length cs1 \<le> MAX_CONFIRMATIONS_CONSIDERED"
    using build_confirmations_considered [OF 3(2)] by (metis considered_def length_take min.cobounded2)
  then have "length cs \<le> MAX_CONFIRMATIONS_CONSIDERED" unfolding 3(4) using length_filter_le order_trans by blast
  then show ?thesis
    using build_confirmations_wf [OF 3(2)] build_confirmations_mem [OF 3(2)] build_confirmations_mem [OF 3(3)] 3(1,4)
    by (auto simp: corroborator_def)
qed (simp_all add: corroborator_def first_distinct_def)

lemma resolve_confirmations_total:
  assumes "honest_lookup lookup" shows "\<exists>cs. resolve_confirmations lookup p row = ok cs"
proof (cases "cls (qr_provenance row) = PROPOSAL \<or> filter (\<lambda>r. r \<notin> origin_runs (qr_provenance row)) (qr_confirming_run_ids row) = []")
  case False
  then show ?thesis
    using resolve_confirmations_eq [of row lookup p, OF _ _ build_confirmations_eq [OF assms] build_confirmations_eq [OF assms]] by blast
qed (auto simp: resolve_confirmations_def)

section \<open>Evaluation of one row\<close>

lemma sv_evidence_simps [simp]:
  "ev_provenance_class (sv_evidence t row cs) = cls (qr_provenance row)"
  "ev_trust_tier (sv_evidence t row cs) = qr_trust_tier row" "ev_mem_type (sv_evidence t row cs) = qr_mem_type row"
  "confirmations (sv_evidence t row cs) = cs" "is_failure_lesson (sv_evidence t row cs) = qr_is_failure_lesson row"
  "now (sv_evidence t row cs) = t" "status_changed_at (sv_evidence t row cs) = qr_status_changed_at row"
  by (simp_all add: sv_evidence_def base_evidence_def)

definition sv_acceptable :: "trace_lookup \<Rightarrow> project_id \<Rightarrow> effective_config \<Rightarrow> (nat \<Rightarrow> datetime) \<Rightarrow> quarantined_row \<Rightarrow> bool" where
  "sv_acceptable lookup p cfg clock row \<longleftrightarrow> honest_lookup lookup \<and> (\<exists>l. limits_from_config cfg = ok l) \<and> (\<forall>i. is_aware (clock i)) \<and>
     qr_project_id row = p \<and> qr_status row = QUARANTINED \<and> (\<forall>t\<in>set_option (qr_status_changed_at row). is_aware t)"

definition sv_licensed :: "trace_lookup \<Rightarrow> int \<Rightarrow> project_id \<Rightarrow> effective_config \<Rightarrow> quarantined_row \<Rightarrow> shadow_write \<Rightarrow> bool" where
  "sv_licensed lookup epoch_id p cfg row w \<longleftrightarrow>
     qr_project_id row = p \<and> sw_memory_id w = qr_id row \<and> sw_epoch_id w = epoch_id \<and>
     sw_from_status w = QUARANTINED \<and> qr_status row = QUARANTINED \<and> sw_to_status w = CANDIDATE \<and>
     (\<exists>cs l. limits_from_config cfg = ok l \<and> resolve_confirmations lookup p row = ok cs \<and>
        apply_transition (Some QUARANTINED) CANDIDATE (sv_evidence (sw_now w) row cs) l = Inr CANDIDATE)"

lemma sv_evaluate_ok:
  assumes "sv_evaluate_one lookup epoch_id p cfg t row = Inr (out, ws)"
  shows "qr_project_id row = p \<and> qr_status row = QUARANTINED \<and> length ws \<le> 1 \<and> so_promoted out = (ws \<noteq> []) \<and>
     (\<forall>w\<in>set ws. sv_licensed lookup epoch_id p cfg row w)"
proof -
  obtain l cs k e where st: "sv_require_row row p = ok ()" "limits_from_config cfg = ok l" "resolve_confirmations lookup p row = ok cs"
    "evidence_post_init (sv_evidence t row cs) = ok e" and r: "sv_decide epoch_id t row k e l = Inr (out, ws)"
    using assms by (auto simp: sv_evaluate_one_def bind_res_Inr_iff)
  have row: "qr_project_id row = p" "qr_status row = QUARANTINED" using st(1) by (auto simp: sv_require_row_def split: if_splits)
  have e: "e = sv_evidence t row cs" using st(4) by (simp add: evidence_post_init_iff)
  consider reason where "apply_transition (Some (qr_status row)) CANDIDATE e l = Inl (GuardNotSatisfied (Some QUARANTINED) CANDIDATE reason)"
    | "apply_transition (Some (qr_status row)) CANDIDATE e l = Inr CANDIDATE" "ws \<noteq> []" "so_promoted out"
    | "ws = []" "\<not> so_promoted out"
    using r apply_transition_target [of "Some (qr_status row)" CANDIDATE e l] by (auto simp: sv_decide_def try_apply_Inr_iff)
  then show ?thesis
  proof cases
    case 1
    then show ?thesis using r row by (auto simp: sv_decide_def)
  next
    case 2
    then show ?thesis using r row st e by (auto simp: sv_decide_def sv_licensed_def)
  qed (use row in simp)
qed

lemma sv_evaluate_eq:
  assumes "qr_project_id row = p" "qr_status row = QUARANTINED" "limits_from_config cfg = ok l"
    "resolve_confirmations lookup p row = ok cs" "is_aware t" "\<forall>t\<in>set_option (qr_status_changed_at row). is_aware t"
  shows "\<exists>out ws. sv_evaluate_one lookup epoch_id p cfg t row = Inr (out, ws) \<and>
     (ws \<noteq> [] \<longleftrightarrow> apply_transition (Some QUARANTINED) CANDIDATE (sv_evidence t row cs) l = Inr CANDIDATE)"
proof -
  let ?e = "sv_evidence t row cs"
  have wf: "\<forall>c\<in>set cs. wf_confirmation c" using resolve_confirmations_ok [OF assms(4)] by blast
  then have wfe: "wf_evidence ?e" by (simp add: wf_evidence_def)
  obtain k where k: "independent_confirmations cs None = ok k" using independent_confirmations_sound [OF wf, of None] by blast
  have "evidence_post_init ?e = ok ?e" using assms(5,6) by (simp add: evidence_post_init_iff)
  moreover have "(Some QUARANTINED, CANDIDATE) \<in> fst ` set TRANSITIONS" by (simp add: table_defs)
  note apply_on_edge [OF wfe this, of l]
  ultimately show ?thesis
    using assms(1-4) k by (auto simp: sv_evaluate_one_def sv_require_row_def sv_decide_def)
qed

interpretation sv: guarded_worker "\<lambda>i. sv_evaluate_one lookup epoch_id p cfg (clock i)"
  "sv_licensed lookup epoch_id p cfg" "sv_acceptable lookup p cfg clock"
  for lookup epoch_id p cfg clock
proof (unfold_locales, goal_cases)
  case (1 i row outcome ws w)
  then show ?case using sv_evaluate_ok by blast
next
  case (2 row i)
  then obtain l cs where "limits_from_config cfg = ok l" "resolve_confirmations lookup p row = ok cs"
    using resolve_confirmations_total [of lookup p row] by (auto simp: sv_acceptable_def)
  then show ?case using sv_evaluate_eq [of row p cfg l lookup cs "clock i" epoch_id] 2 unfolding sv_acceptable_def by blast
next
  case (3 i row outcome ws)
  then show ?case using sv_evaluate_ok by blast
qed

section \<open>Small thresholds\<close>

lemma corroborated_one:
  assumes "required_confirmations e l = 1" shows "corroborated e l \<longleftrightarrow> confirmations e \<noteq> []"
proof
  assume ne: "confirmations e \<noteq> []"
  then have "independent_set (considered (confirmations e)) {0}"
    by (simp add: independent_set_def considered_def MAX_CONFIRMATIONS_CONSIDERED_def)
  then show "corroborated e l" using assms unfolding corroborated_def by (intro exI [of _ "{0}"]) simp
qed (use assms corroborated_nonempty in simp)

lemma corroborated_two:
  assumes "required_confirmations e l = 2" "length (confirmations e) \<le> MAX_CONFIRMATIONS_CONSIDERED"
  shows "corroborated e l \<longleftrightarrow> (\<exists>a\<in>set (confirmations e). \<exists>b\<in>set (confirmations e). compatible a b)"
proof
  assume "\<exists>a\<in>set (confirmations e). \<exists>b\<in>set (confirmations e). compatible a b"
  then obtain i j where ij: "i < length (confirmations e)" "j < length (confirmations e)"
    "compatible (confirmations e ! i) (confirmations e ! j)" by (metis in_set_conv_nth)
  then have "i \<noteq> j" by auto
  moreover have "independent_set (considered (confirmations e)) {i, j}"
    using ij assms(2) by (auto simp: independent_set_def considered_def compatible_commute)
  ultimately show "corroborated e l" using assms(1) unfolding corroborated_def by (intro exI [of _ "{i, j}"]) simp
qed (use assms corroborated_pair in simp)

lemma quarantine_exit_small:
  assumes wf: "wf_evidence e" and req: "required_confirmations e l \<in> {1, 2}"
    and len: "length (confirmations e) \<le> MAX_CONFIRMATIONS_CONSIDERED"
  shows "apply_transition (Some QUARANTINED) CANDIDATE e l = Inr CANDIDATE \<longleftrightarrow> ev_provenance_class e \<noteq> PROPOSAL \<and>
     (if required_confirmations e l = 1 then confirmations e \<noteq> []
      else \<exists>a\<in>set (confirmations e). \<exists>b\<in>set (confirmations e). compatible a b)"
proof -
  have "required_confirmations e l \<le> 2" using req by auto
  then have "apply_transition (Some QUARANTINED) CANDIDATE e l = Inr CANDIDATE \<longleftrightarrow> plan_step e l (Some QUARANTINED) CANDIDATE"
    using apply_transition_plan [OF wf, of "Some QUARANTINED" CANDIDATE l] plan_apply_transition [OF wf, of l "Some QUARANTINED" CANDIDATE]
    by blast
  then show ?thesis using req corroborated_one [of e l] corroborated_two [of e l] len by auto
qed

lemma first_distinct_all: "distinct rs \<Longrightarrow> length rs \<le> MAX_CONFIRMATIONS_CONSIDERED \<Longrightarrow> first_distinct rs = rs"
  by (simp add: first_distinct_def distinct_remdups_id)

lemma shadow_decision:
  assumes "sv_acceptable lookup p cfg clock row" "limits_from_config cfg = ok l" "failure_lesson_outcomes l \<le> 2"
  shows "\<exists>out ws. sv_evaluate_one lookup epoch_id p cfg (clock i) row = Inr (out, ws) \<and> so_promoted out = (ws \<noteq> []) \<and>
     (so_promoted out \<longleftrightarrow> cls (qr_provenance row) \<noteq> PROPOSAL \<and>
        (if qr_is_failure_lesson row \<and> qr_mem_type row = LESSON \<and> failure_lesson_outcomes l = 1
         then \<exists>c. corroborator lookup p row c
         else \<exists>a b. corroborator lookup p row a \<and> corroborator lookup p row b \<and> compatible a b))"
proof -
  obtain cs where cs: "resolve_confirmations lookup p row = ok cs"
    using resolve_confirmations_total [of lookup p row] assms(1) by (auto simp: sv_acceptable_def)
  note mem = resolve_confirmations_ok [OF cs]
  let ?e = "sv_evidence (clock i) row cs"
  have wf: "wf_evidence ?e" using mem by (simp add: wf_evidence_def)
  have "1 \<le> failure_lesson_outcomes l" using assms(2) by (auto simp: limits_from_config_def limits_post_init_iff)
  then have req: "required_confirmations ?e l = (if qr_is_failure_lesson row \<and> qr_mem_type row = LESSON \<and> failure_lesson_outcomes l = 1 then 1 else 2)"
    using assms(3) by (auto simp: required_confirmations_def SHADOW_CONFIRM_MIN_INDEPENDENT_def)
  have dec: "apply_transition (Some QUARANTINED) CANDIDATE ?e l = Inr CANDIDATE \<longleftrightarrow> cls (qr_provenance row) \<noteq> PROPOSAL \<and>
        (if qr_is_failure_lesson row \<and> qr_mem_type row = LESSON \<and> failure_lesson_outcomes l = 1
         then \<exists>c. corroborator lookup p row c
         else \<exists>a b. corroborator lookup p row a \<and> corroborator lookup p row b \<and> compatible a b)"
  proof (cases "cls (qr_provenance row) = PROPOSAL")
    case False
    have "cs \<noteq> [] \<longleftrightarrow> (\<exists>c. c \<in> set cs)" by (cases cs) auto
    moreover have "c \<in> set cs \<longleftrightarrow> corroborator lookup p row c" for c using mem False by blast
    ultimately show ?thesis using quarantine_exit_small [OF wf, of l] req mem False by (simp add: Bex_def split: if_splits)
  qed (use quarantine_exit_small [OF wf, of l] req mem in \<open>simp split: if_splits\<close>)
  have "\<exists>out ws. sv_evaluate_one lookup epoch_id p cfg (clock i) row = Inr (out, ws) \<and>
     (ws \<noteq> [] \<longleftrightarrow> apply_transition (Some QUARANTINED) CANDIDATE ?e l = Inr CANDIDATE)"
    using assms(1) cs by (intro sv_evaluate_eq [OF _ _ assms(2)]) (auto simp: sv_acceptable_def)
  then obtain out ws where "sv_evaluate_one lookup epoch_id p cfg (clock i) row = Inr (out, ws)"
    "ws \<noteq> [] \<longleftrightarrow> apply_transition (Some QUARANTINED) CANDIDATE ?e l = Inr CANDIDATE" by blast
  then show ?thesis using sv_evaluate_ok [of lookup epoch_id p cfg "clock i" row out ws] dec by auto
qed

section \<open>Properties\<close>


text \<open>
  C7. A memory cannot corroborate itself: any promotion rests on a run that was offered, is not an origin
  of the memory, has a recorded input, and was submitted by a principal different from that of every
  origin whose trace row is usable (for a memory with at most 256 origins).
\<close>

theorem shadow_no_self_corroboration:
  assumes "sv_evaluate_one lookup epoch_id p cfg t row = Inr (out, ws)" "so_promoted out"
    and "card (origin_runs (qr_provenance row)) \<le> MAX_CONFIRMATIONS_CONSIDERED"
  shows "\<exists>r f. r \<in> set (qr_confirming_run_ids row) \<and> r \<notin> origin_runs (qr_provenance row) \<and> lookup p r = Some f \<and>
     cr_input_signature_hash f \<noteq> ABSENT_SIGNATURE \<and>
     (\<forall>r'\<in>origin_runs (qr_provenance row). \<forall>g. lookup p r' = Some g \<longrightarrow>
        length (cr_input_signature_hash g) = SIG_HASH_LEN \<longrightarrow> cr_principal_id g \<noteq> cr_principal_id f)"
proof -
  obtain w where "w \<in> set ws" using assms(1,2) sv_evaluate_ok by (metis list.set_intros(1) neq_Nil_conv)
  then obtain cs l where l: "limits_from_config cfg = ok l" and cs: "resolve_confirmations lookup p row = ok cs"
    and ap: "apply_transition (Some QUARANTINED) CANDIDATE (sv_evidence (sw_now w) row cs) l = Inr CANDIDATE"
    using sv_evaluate_ok [OF assms(1)] by (auto simp: sv_licensed_def)
  have wf: "wf_evidence (sv_evidence (sw_now w) row cs)" using resolve_confirmations_ok [OF cs] by (simp add: wf_evidence_def)
  have "1 \<le> required_confirmations (sv_evidence (sw_now w) row cs) l"
    using l by (auto simp: required_confirmations_def SHADOW_CONFIRM_MIN_INDEPENDENT_def limits_from_config_def limits_post_init_iff)
  then have "cs \<noteq> []" using apply_transition_plan [OF wf ap] corroborated_nonempty by fastforce
  then obtain c where c: "corroborator lookup p row c" using resolve_confirmations_ok [OF cs] by (metis list.set_intros(1) neq_Nil_conv)
  have all: "first_distinct (sorted_list_of_set (origin_runs (qr_provenance row))) = sorted_list_of_set (origin_runs (qr_provenance row))"
    using assms(3) by (intro first_distinct_all) (simp_all add: length_sorted_list_of_set)
  obtain r f where r: "r \<in> set (qr_confirming_run_ids row)" "r \<notin> origin_runs (qr_provenance row)" "lookup p r = Some f"
    "cr_input_signature_hash f \<noteq> ABSENT_SIGNATURE" "sc_principal_id c = cr_principal_id f"
    using c first_distinct_props(2) by (fastforce simp: corroborator_def confirmation_of_Some is_absent_signature_def)
  have "cr_principal_id g \<noteq> cr_principal_id f" if "r' \<in> origin_runs (qr_provenance row)" "lookup p r' = Some g"
    "length (cr_input_signature_hash g) = SIG_HASH_LEN" for r' g
    using c that r(5) by (auto simp: corroborator_def all confirmation_of_def compatible_def)
  then show ?thesis using r by blast
qed


section \<open>Witnesses\<close>

text \<open>A distilled memory of run 9, offered the runs 1 and 2 of two principals with distant signatures.\<close>

definition sample_row :: quarantined_row where
  "sample_row = \<lparr>qr_id = MemoryId 5, qr_project_id = ProjectId 0, qr_status = QUARANTINED, qr_trust_tier = TierB,
     qr_mem_type = SEMANTIC, qr_provenance = sample_provenance\<lparr>trace_ids := [RunId 9], prov_run_id := None\<rparr>,
     qr_status_changed_at = None, qr_is_failure_lesson = False, qr_confirming_run_ids = [RunId 1, RunId 9, RunId 2]\<rparr>"

lemma sample_row_acceptable: "sv_acceptable sample_lookup (ProjectId 0) default_config (\<lambda>_. Aware 0) sample_row"
  using default_limits sample_lookup_honest by (auto simp: sv_acceptable_def sample_row_def)

lemma sample_row_corroborator:
  "r \<in> {1, 2} \<Longrightarrow> corroborator sample_lookup (ProjectId 0) sample_row (sample_conf r r (if r = 2 then 255 else 1))"
  by (auto simp: corroborator_def sample_row_def origin_runs_def sample_provenance_def first_distinct_def
      MAX_CONFIRMATIONS_CONSIDERED_def confirmation_of_def sample_lookup_def is_absent_signature_def SIG_HASH_LEN_def sample_conf_def)

lemma sample_row_compatible: "compatible (sample_conf 1 1 1) (sample_conf 2 2 255)"
  by (simp add: compatible_def sample_simps)

lemma sample_row_promoted:
  "\<exists>out ws. sv_evaluate_one sample_lookup 3 (ProjectId 0) default_config (Aware 0) sample_row = Inr (out, ws) \<and> so_promoted out"
proof -
  have "failure_lesson_outcomes sample_limits \<le> 2" by (simp add: sample_limits_def)
  from shadow_decision [OF sample_row_acceptable default_limits this, of 3] show ?thesis
    using sample_row_corroborator [of 1] sample_row_corroborator [of 2] sample_row_compatible
    by (auto simp: sample_row_def sample_provenance_def)
qed


theorem shadow_no_self_corroboration_witness:
  "\<exists>r f. r \<in> {RunId 1, RunId 2} \<and> sample_lookup (ProjectId 0) r = Some f \<and> cr_input_signature_hash f \<noteq> ABSENT_SIGNATURE"
proof -
  obtain out ws where o: "sv_evaluate_one sample_lookup 3 (ProjectId 0) default_config (Aware 0) sample_row = Inr (out, ws)" "so_promoted out"
    using sample_row_promoted by blast
  have orig: "origin_runs (qr_provenance sample_row) = {RunId 9}" by (simp add: sample_row_def origin_runs_def)
  then have "card (origin_runs (qr_provenance sample_row)) \<le> MAX_CONFIRMATIONS_CONSIDERED"
    by (simp add: MAX_CONFIRMATIONS_CONSIDERED_def)
  from shadow_no_self_corroboration [OF o this] show ?thesis unfolding orig by (auto simp: sample_row_def)
qed


end
