(* ===== verification/Promotion.thy ===== *)
theory Promotion
  imports Workers
begin

text \<open>
  Promotion and retirement, \<open>src/src/tracebed/workers/promotion.py\<close>. What the worker does to the
  repository is a list of effects: a persisted status write, or a review-queue item (the message is
  kept as the values its f-string prints). The selects are the lists of rows.
\<close>

section \<open>Definitions\<close>

record candidate_row =
  ca_id :: memory_id
  ca_project_id :: project_id
  ca_status :: status
  ca_trust_tier :: trust_tier
  ca_mem_type :: mem_type
  ca_provenance :: provenance
  ca_status_changed_at :: "datetime option"
  ca_promotion_outcomes :: int
  ca_promotion_distinct_principals :: int
  ca_outcome_consistent :: bool
  ca_scan_repass :: bool
  ca_open_contradiction :: bool

record validated_row =
  va_id :: memory_id
  va_project_id :: project_id
  va_status :: status
  va_trust_tier :: trust_tier
  va_mem_type :: mem_type
  va_provenance :: provenance
  va_status_changed_at :: "datetime option"
  va_q_value :: pyfloat
  va_scored_use_count :: int
  va_distinct_scoring_principals :: int

record promotion_write =
  pw_memory_id :: memory_id
  pw_from_status :: status
  pw_to_status :: status
  pw_now :: datetime

record review_item =
  ri_project_id :: project_id
  ri_memory_id :: memory_id
  ri_q_value :: pyfloat
  ri_q_threshold :: pyfloat
  ri_scored_uses :: int
  ri_min_scored_uses :: int
  ri_principals :: int
  ri_min_principals :: int
  ri_reason :: guard_reason

datatype promotion_effect = Persist promotion_write | InsertReviewItem review_item

record promotion_outcome =
  po_memory_id :: memory_id
  po_promoted :: bool
  po_to_status :: "status option"
  po_reason :: guard_reason

record retirement_outcome =
  ro_memory_id :: memory_id
  ro_retired :: bool
  ro_routed_to_review :: bool
  ro_to_status :: "status option"
  ro_reason :: guard_reason

record 'out promotion_batch_result =
  pb_rows_examined :: nat
  pb_outcomes :: "'out list"

text \<open>\<open>_require_status\<close> on the two fields it reads.\<close>

definition require_status :: "project_id \<Rightarrow> status \<Rightarrow> project_id \<Rightarrow> status \<Rightarrow> unit res" where
  "require_status row_project row_status p expected =
     (if row_project \<noteq> p then raise TracebedError
      else if row_status \<noteq> expected then raise TracebedError
      else ok ())"

definition candidate_evidence :: "datetime \<Rightarrow> candidate_row \<Rightarrow> transition_evidence" where
  "candidate_evidence t row =
     (base_evidence t (cls (ca_provenance row)) (ca_trust_tier row) (ca_mem_type row))
       \<lparr>status_changed_at := ca_status_changed_at row,
        promotion_outcomes := ca_promotion_outcomes row,
        promotion_distinct_principals := ca_promotion_distinct_principals row,
        outcome_consistent := ca_outcome_consistent row,
        scan_repass := ca_scan_repass row,
        open_contradiction := ca_open_contradiction row\<rparr>"

definition evaluate_candidate ::
  "project_id \<Rightarrow> effective_config \<Rightarrow> datetime \<Rightarrow> candidate_row \<Rightarrow> sm_error + (promotion_outcome \<times> promotion_effect list)" where
  "evaluate_candidate p cfg t row =
     bind_res (lift_error (require_status (ca_project_id row) (ca_status row) p CANDIDATE)) (\<lambda>_.
     bind_res (lift_error (limits_from_config cfg)) (\<lambda>limits.
     bind_res (lift_error (evidence_post_init (candidate_evidence t row))) (\<lambda>evidence.
       try_apply (apply_transition (Some (ca_status row)) VALIDATED evidence limits)
         (\<lambda>reason. (\<lparr>po_memory_id = ca_id row, po_promoted = False, po_to_status = None, po_reason = reason\<rparr>, []))
         (\<lambda>new_status.
           (\<lparr>po_memory_id = ca_id row, po_promoted = True, po_to_status = Some new_status, po_reason = NoReason\<rparr>,
            [Persist \<lparr>pw_memory_id = ca_id row, pw_from_status = ca_status row, pw_to_status = new_status, pw_now = t\<rparr>])))))"

definition run_promotion_once ::
  "project_id \<Rightarrow> effective_config \<Rightarrow> (nat \<Rightarrow> datetime) \<Rightarrow> candidate_row list \<Rightarrow>
     (sm_error + promotion_outcome promotion_batch_result) \<times> promotion_effect list" where
  "run_promotion_once p cfg clock rows =
     (let (res, effects) = batch (\<lambda>i. evaluate_candidate p cfg (clock i)) 0 rows
      in (bind_res res (\<lambda>outs. Inr \<lparr>pb_rows_examined = length rows, pb_outcomes = outs\<rparr>), effects))"

definition retirement_evidence :: "datetime \<Rightarrow> validated_row \<Rightarrow> transition_evidence" where
  "retirement_evidence t row =
     (base_evidence t (cls (va_provenance row)) (va_trust_tier row) (va_mem_type row))
       \<lparr>status_changed_at := va_status_changed_at row,
        q_value := va_q_value row,
        scored_use_count := va_scored_use_count row,
        distinct_scoring_principals := va_distinct_scoring_principals row\<rparr>"

text \<open>The condition under which a refused retirement is routed to review.\<close>

definition review_due :: "validated_row \<Rightarrow> transition_limits \<Rightarrow> bool" where
  "review_due row limits \<longleftrightarrow>
     flt (va_q_value row) (retire_q_threshold limits) \<and> va_scored_use_count row \<ge> retire_min_scored_uses limits \<and>
     va_distinct_scoring_principals row < retire_min_distinct_principals limits"

definition evaluate_retirement ::
  "project_id \<Rightarrow> effective_config \<Rightarrow> datetime \<Rightarrow> validated_row \<Rightarrow> sm_error + (retirement_outcome \<times> promotion_effect list)" where
  "evaluate_retirement p cfg t row =
     bind_res (lift_error (require_status (va_project_id row) (va_status row) p VALIDATED)) (\<lambda>_.
     bind_res (lift_error (limits_from_config cfg)) (\<lambda>limits.
     bind_res (lift_error (evidence_post_init (retirement_evidence t row))) (\<lambda>evidence.
       try_apply (apply_transition (Some (va_status row)) RETIRED evidence limits)
         (\<lambda>reason.
           if review_due row limits then
             (\<lparr>ro_memory_id = va_id row, ro_retired = False, ro_routed_to_review = True, ro_to_status = None, ro_reason = reason\<rparr>,
              [InsertReviewItem \<lparr>ri_project_id = p, ri_memory_id = va_id row, ri_q_value = va_q_value row,
                 ri_q_threshold = retire_q_threshold limits, ri_scored_uses = va_scored_use_count row,
                 ri_min_scored_uses = retire_min_scored_uses limits, ri_principals = va_distinct_scoring_principals row,
                 ri_min_principals = retire_min_distinct_principals limits, ri_reason = reason\<rparr>])
           else (\<lparr>ro_memory_id = va_id row, ro_retired = False, ro_routed_to_review = False, ro_to_status = None, ro_reason = reason\<rparr>, []))
         (\<lambda>new_status.
           (\<lparr>ro_memory_id = va_id row, ro_retired = True, ro_routed_to_review = False, ro_to_status = Some new_status, ro_reason = NoReason\<rparr>,
            [Persist \<lparr>pw_memory_id = va_id row, pw_from_status = va_status row, pw_to_status = new_status, pw_now = t\<rparr>])))))"

definition run_retirement_once ::
  "project_id \<Rightarrow> effective_config \<Rightarrow> (nat \<Rightarrow> datetime) \<Rightarrow> validated_row list \<Rightarrow>
     (sm_error + retirement_outcome promotion_batch_result) \<times> promotion_effect list" where
  "run_retirement_once p cfg clock rows =
     (let (res, effects) = batch (\<lambda>i. evaluate_retirement p cfg (clock i)) 0 rows
      in (bind_res res (\<lambda>outs. Inr \<lparr>pb_rows_examined = length rows, pb_outcomes = outs\<rparr>), effects))"

section \<open>Promotion\<close>

definition candidate_acceptable :: "project_id \<Rightarrow> effective_config \<Rightarrow> (nat \<Rightarrow> datetime) \<Rightarrow> candidate_row \<Rightarrow> bool" where
  "candidate_acceptable p cfg clock row \<longleftrightarrow> (\<exists>l. limits_from_config cfg = ok l) \<and> (\<forall>i. is_aware (clock i)) \<and>
     ca_project_id row = p \<and> ca_status row = CANDIDATE \<and> (\<forall>t\<in>set_option (ca_status_changed_at row). is_aware t)"

definition promotion_due :: "candidate_row \<Rightarrow> transition_limits \<Rightarrow> bool" where
  "promotion_due row l \<longleftrightarrow> promote_min_outcomes l \<le> ca_promotion_outcomes row \<and>
     promotion_min_distinct_principals l \<le> ca_promotion_distinct_principals row \<and> ca_outcome_consistent row \<and>
     ca_scan_repass row \<and> \<not> ca_open_contradiction row"

definition promotion_licensed :: "project_id \<Rightarrow> effective_config \<Rightarrow> candidate_row \<Rightarrow> promotion_effect \<Rightarrow> bool" where
  "promotion_licensed p cfg row eff \<longleftrightarrow>
     (\<exists>t l. eff = Persist \<lparr>pw_memory_id = ca_id row, pw_from_status = CANDIDATE, pw_to_status = VALIDATED, pw_now = t\<rparr> \<and>
        ca_project_id row = p \<and> ca_status row = CANDIDATE \<and> limits_from_config cfg = ok l \<and> promotion_due row l)"

lemma wf_base_evidence: "confirmations e = [] \<Longrightarrow> wf_evidence e"
  by (simp add: wf_evidence_def)

lemma candidate_apply:
  "apply_transition (Some CANDIDATE) VALIDATED (candidate_evidence t row) l = Inr VALIDATED \<longleftrightarrow> promotion_due row l"
proof -
  have wf: "wf_evidence (candidate_evidence t row)" by (rule wf_base_evidence) (simp add: candidate_evidence_def base_evidence_def)
  have "apply_transition (Some CANDIDATE) VALIDATED (candidate_evidence t row) l = Inr VALIDATED \<longleftrightarrow>
     plan_step (candidate_evidence t row) l (Some CANDIDATE) VALIDATED"
    using apply_transition_plan [OF wf, of "Some CANDIDATE" VALIDATED l] plan_apply_transition [OF wf, of l "Some CANDIDATE" VALIDATED]
    by blast
  then show ?thesis by (simp add: promotion_due_def candidate_evidence_def base_evidence_def)
qed

lemma retirement_apply:
  "apply_transition (Some VALIDATED) RETIRED (retirement_evidence t row) l = Inr RETIRED \<longleftrightarrow>
     \<not> fle (retire_q_threshold l) (va_q_value row) \<and> retire_min_scored_uses l \<le> va_scored_use_count row \<and>
     retire_min_distinct_principals l \<le> va_distinct_scoring_principals row"
proof -
  have wf: "wf_evidence (retirement_evidence t row)" by (rule wf_base_evidence) (simp add: retirement_evidence_def base_evidence_def)
  have "apply_transition (Some VALIDATED) RETIRED (retirement_evidence t row) l = Inr RETIRED \<longleftrightarrow>
     plan_step (retirement_evidence t row) l (Some VALIDATED) RETIRED"
    using apply_transition_plan [OF wf, of "Some VALIDATED" RETIRED l] plan_apply_transition [OF wf, of l "Some VALIDATED" RETIRED]
    by blast
  then show ?thesis by (simp add: retirement_evidence_def base_evidence_def)
qed

lemma evidence_ok:
  "evidence_post_init (candidate_evidence t row) = ok e \<longleftrightarrow> e = candidate_evidence t row \<and> is_aware t \<and> (\<forall>t\<in>set_option (ca_status_changed_at row). is_aware t)"
  "evidence_post_init (retirement_evidence t vrow) = ok e \<longleftrightarrow> e = retirement_evidence t vrow \<and> is_aware t \<and> (\<forall>t\<in>set_option (va_status_changed_at vrow). is_aware t)"
  by (simp_all add: evidence_post_init_iff candidate_evidence_def retirement_evidence_def base_evidence_def)

lemma require_status_iff: "require_status a s p x = ok u \<longleftrightarrow> a = p \<and> s = x"
  by (simp add: require_status_def)

lemma candidate_edge:
  "(\<exists>r. apply_transition (Some CANDIDATE) VALIDATED (candidate_evidence t row) l = Inl (GuardNotSatisfied (Some CANDIDATE) VALIDATED r)) \<or>
   apply_transition (Some CANDIDATE) VALIDATED (candidate_evidence t row) l = Inr VALIDATED"
  by (rule apply_on_edge) (simp_all add: table_defs wf_base_evidence candidate_evidence_def base_evidence_def)

lemma retirement_edge:
  "(\<exists>r. apply_transition (Some VALIDATED) RETIRED (retirement_evidence t row) l = Inl (GuardNotSatisfied (Some VALIDATED) RETIRED r)) \<or>
   apply_transition (Some VALIDATED) RETIRED (retirement_evidence t row) l = Inr RETIRED"
  by (rule apply_on_edge) (simp_all add: table_defs wf_base_evidence retirement_evidence_def base_evidence_def)

lemma evaluate_candidate_eq:
  assumes "ca_project_id row = p" "ca_status row = CANDIDATE" "limits_from_config cfg = ok l" "is_aware t"
    "\<forall>t\<in>set_option (ca_status_changed_at row). is_aware t"
  shows "\<exists>out effs. evaluate_candidate p cfg t row = Inr (out, effs) \<and> po_promoted out = promotion_due row l \<and>
     effs = (if promotion_due row l
             then [Persist \<lparr>pw_memory_id = ca_id row, pw_from_status = CANDIDATE, pw_to_status = VALIDATED, pw_now = t\<rparr>] else [])"
proof -
  have e: "evidence_post_init (candidate_evidence t row) = ok (candidate_evidence t row)" using assms(4,5) by (simp add: evidence_ok)
  have r: "require_status (ca_project_id row) (ca_status row) p CANDIDATE = ok ()" using assms(1,2) by (simp add: require_status_iff)
  from candidate_edge [of t row l] candidate_apply [of t row l] assms(2,3) e r show ?thesis
    by (auto simp: evaluate_candidate_def)
qed

lemma evaluate_candidate_ok:
  assumes "evaluate_candidate p cfg t row = Inr (out, effs)"
  shows "ca_project_id row = p \<and> ca_status row = CANDIDATE \<and> is_aware t \<and> (\<forall>t\<in>set_option (ca_status_changed_at row). is_aware t) \<and>
     (\<exists>l. limits_from_config cfg = ok l)"
  using assms by (auto simp: evaluate_candidate_def bind_res_Inr_iff require_status_iff evidence_ok)

lemma evaluate_candidate_licensed:
  assumes "evaluate_candidate p cfg t row = Inr (out, effs)"
  shows "length effs \<le> 1 \<and> (\<forall>eff\<in>set effs. promotion_licensed p cfg row eff)"
proof -
  obtain l where "ca_project_id row = p" "ca_status row = CANDIDATE" "limits_from_config cfg = ok l" "is_aware t"
    "\<forall>t\<in>set_option (ca_status_changed_at row). is_aware t" using evaluate_candidate_ok [OF assms] by blast
  from evaluate_candidate_eq [OF this] assms this show ?thesis by (auto simp: promotion_licensed_def)
qed

interpretation promo: guarded_worker "\<lambda>i. evaluate_candidate p cfg (clock i)" "promotion_licensed p cfg" "candidate_acceptable p cfg clock"
  for p cfg clock
proof (unfold_locales, goal_cases)
  case (1 i row outcome ws w)
  then show ?case using evaluate_candidate_licensed by blast
next
  case (2 row i)
  then obtain l where "limits_from_config cfg = ok l" by (auto simp: candidate_acceptable_def)
  from evaluate_candidate_eq [OF _ _ this, of row p "clock i"] 2 show ?case unfolding candidate_acceptable_def by blast
next
  case (3 i row outcome ws)
  then show ?case using evaluate_candidate_licensed by blast
qed

section \<open>Retirement\<close>

definition retirement_acceptable :: "project_id \<Rightarrow> effective_config \<Rightarrow> (nat \<Rightarrow> datetime) \<Rightarrow> validated_row \<Rightarrow> bool" where
  "retirement_acceptable p cfg clock row \<longleftrightarrow> (\<exists>l. limits_from_config cfg = ok l) \<and> (\<forall>i. is_aware (clock i)) \<and>
     va_project_id row = p \<and> va_status row = VALIDATED \<and> (\<forall>t\<in>set_option (va_status_changed_at row). is_aware t)"

definition retirement_due :: "validated_row \<Rightarrow> transition_limits \<Rightarrow> bool" where
  "retirement_due row l \<longleftrightarrow> \<not> fle (retire_q_threshold l) (va_q_value row) \<and> retire_min_scored_uses l \<le> va_scored_use_count row \<and>
     retire_min_distinct_principals l \<le> va_distinct_scoring_principals row"

definition retirement_licensed :: "project_id \<Rightarrow> effective_config \<Rightarrow> validated_row \<Rightarrow> promotion_effect \<Rightarrow> bool" where
  "retirement_licensed p cfg row eff \<longleftrightarrow> va_project_id row = p \<and> va_status row = VALIDATED \<and>
     (\<exists>l. limits_from_config cfg = ok l \<and>
        ((\<exists>t. eff = Persist \<lparr>pw_memory_id = va_id row, pw_from_status = VALIDATED, pw_to_status = RETIRED, pw_now = t\<rparr> \<and> retirement_due row l) \<or>
         (\<exists>item. eff = InsertReviewItem item \<and> ri_memory_id item = va_id row \<and> ri_project_id item = p \<and> review_due row l)))"

lemma review_not_retire: "review_due row l \<Longrightarrow> \<not> retirement_due row l"
  by (simp add: review_due_def retirement_due_def)

lemma evaluate_retirement_eq:
  assumes "va_project_id row = p" "va_status row = VALIDATED" "limits_from_config cfg = ok l" "is_aware t"
    "\<forall>t\<in>set_option (va_status_changed_at row). is_aware t"
  shows "\<exists>out effs. evaluate_retirement p cfg t row = Inr (out, effs) \<and> ro_retired out = retirement_due row l \<and>
     ro_routed_to_review out = review_due row l \<and>
     (retirement_due row l \<longrightarrow> effs = [Persist \<lparr>pw_memory_id = va_id row, pw_from_status = VALIDATED, pw_to_status = RETIRED, pw_now = t\<rparr>]) \<and>
     (review_due row l \<longrightarrow> (\<exists>item. effs = [InsertReviewItem item] \<and> ri_memory_id item = va_id row \<and> ri_project_id item = p)) \<and>
     (\<not> retirement_due row l \<longrightarrow> \<not> review_due row l \<longrightarrow> effs = [])"
proof -
  have e: "evidence_post_init (retirement_evidence t row) = ok (retirement_evidence t row)" using assms(4,5) by (simp add: evidence_ok)
  have r: "require_status (va_project_id row) (va_status row) p VALIDATED = ok ()" using assms(1,2) by (simp add: require_status_iff)
  have ap: "apply_transition (Some VALIDATED) RETIRED (retirement_evidence t row) l = Inr RETIRED \<longleftrightarrow> retirement_due row l"
    by (simp add: retirement_apply retirement_due_def)
  show ?thesis
  proof (cases "retirement_due row l")
    case True
    then show ?thesis using ap review_not_retire [of row l] assms(2,3) e r by (auto simp: evaluate_retirement_def)
  next
    case False
    then obtain reason where "apply_transition (Some VALIDATED) RETIRED (retirement_evidence t row) l = Inl (GuardNotSatisfied (Some VALIDATED) RETIRED reason)"
      using retirement_edge [of t row l] ap by auto
    then show ?thesis using False assms(2,3) e r by (cases "review_due row l") (auto simp: evaluate_retirement_def)
  qed
qed

lemma evaluate_retirement_ok:
  assumes "evaluate_retirement p cfg t row = Inr (out, effs)"
  shows "va_project_id row = p \<and> va_status row = VALIDATED \<and> is_aware t \<and> (\<forall>t\<in>set_option (va_status_changed_at row). is_aware t) \<and>
     (\<exists>l. limits_from_config cfg = ok l)"
  using assms by (auto simp: evaluate_retirement_def bind_res_Inr_iff require_status_iff evidence_ok)

lemma evaluate_retirement_licensed:
  assumes "evaluate_retirement p cfg t row = Inr (out, effs)"
  shows "length effs \<le> 1 \<and> (\<forall>eff\<in>set effs. retirement_licensed p cfg row eff)"
proof -
  obtain l where l: "va_project_id row = p" "va_status row = VALIDATED" "limits_from_config cfg = ok l" "is_aware t"
    "\<forall>t\<in>set_option (va_status_changed_at row). is_aware t" using evaluate_retirement_ok [OF assms] by blast
  consider "retirement_due row l" | "review_due row l" | "\<not> retirement_due row l" "\<not> review_due row l" by blast
  then show ?thesis using evaluate_retirement_eq [OF l] assms l
    by cases (auto simp: retirement_licensed_def)
qed

interpretation retire: guarded_worker "\<lambda>i. evaluate_retirement p cfg (clock i)" "retirement_licensed p cfg" "retirement_acceptable p cfg clock"
  for p cfg clock
proof (unfold_locales, goal_cases)
  case (1 i row outcome ws w)
  then show ?case using evaluate_retirement_licensed by blast
next
  case (2 row i)
  then obtain l where "limits_from_config cfg = ok l" by (auto simp: retirement_acceptable_def)
  from evaluate_retirement_eq [OF _ _ this, of row p "clock i"] 2 show ?case unfolding retirement_acceptable_def by blast
next
  case (3 i row outcome ws)
  then show ?case using evaluate_retirement_licensed by blast
qed

section \<open>Properties\<close>


text \<open>
  C36. Retirement is a trichotomy: an acceptable row with a finite Q value is retired when Q, uses and
  principals all qualify, routed to review without a status change when only the principal floor is
  missing, and left alone otherwise; a retirement always rests on at least two principals.
\<close>

theorem retirement_trichotomy:
  assumes "retirement_acceptable p cfg clock row" "limits_from_config cfg = ok l" "va_q_value row = Fin q" "retire_q_threshold l = Fin th"
  shows "\<exists>out effs. evaluate_retirement p cfg (clock i) row = Inr (out, effs) \<and>
     (if q < th \<and> retire_min_scored_uses l \<le> va_scored_use_count row
      then if retire_min_distinct_principals l \<le> va_distinct_scoring_principals row
           then ro_retired out \<and> 2 \<le> va_distinct_scoring_principals row \<and>
             effs = [Persist \<lparr>pw_memory_id = va_id row, pw_from_status = VALIDATED, pw_to_status = RETIRED, pw_now = clock i\<rparr>]
           else \<not> ro_retired out \<and> ro_routed_to_review out \<and> (\<exists>item. effs = [InsertReviewItem item] \<and> ri_memory_id item = va_id row)
      else \<not> ro_retired out \<and> \<not> ro_routed_to_review out \<and> effs = [])"
proof -
  have "2 \<le> retire_min_distinct_principals l" using assms(2) by (auto simp: limits_from_config_def limits_post_init_iff)
  moreover have "\<exists>out effs. evaluate_retirement p cfg (clock i) row = Inr (out, effs) \<and> ro_retired out = retirement_due row l \<and>
     ro_routed_to_review out = review_due row l \<and>
     (retirement_due row l \<longrightarrow> effs = [Persist \<lparr>pw_memory_id = va_id row, pw_from_status = VALIDATED, pw_to_status = RETIRED, pw_now = clock i\<rparr>]) \<and>
     (review_due row l \<longrightarrow> (\<exists>item. effs = [InsertReviewItem item] \<and> ri_memory_id item = va_id row \<and> ri_project_id item = p)) \<and>
     (\<not> retirement_due row l \<longrightarrow> \<not> review_due row l \<longrightarrow> effs = [])"
    using assms(1) by (intro evaluate_retirement_eq [OF _ _ assms(2)]) (auto simp: retirement_acceptable_def)
  moreover have "retirement_due row l \<longleftrightarrow> q < th \<and> retire_min_scored_uses l \<le> va_scored_use_count row \<and>
     retire_min_distinct_principals l \<le> va_distinct_scoring_principals row"
    "review_due row l \<longleftrightarrow> q < th \<and> retire_min_scored_uses l \<le> va_scored_use_count row \<and>
     \<not> retire_min_distinct_principals l \<le> va_distinct_scoring_principals row"
    using assms(3,4) by (auto simp: retirement_due_def review_due_def)
  ultimately show ?thesis by (auto split: if_splits)
qed

section \<open>Witnesses\<close>

definition sample_candidate :: candidate_row where
  "sample_candidate = \<lparr>ca_id = MemoryId 5, ca_project_id = ProjectId 0, ca_status = CANDIDATE, ca_trust_tier = TierB,
     ca_mem_type = SEMANTIC, ca_provenance = sample_provenance, ca_status_changed_at = None, ca_promotion_outcomes = 3,
     ca_promotion_distinct_principals = 2, ca_outcome_consistent = True, ca_scan_repass = True, ca_open_contradiction = False\<rparr>"

definition sample_validated :: validated_row where
  "sample_validated = \<lparr>va_id = MemoryId 6, va_project_id = ProjectId 0, va_status = VALIDATED, va_trust_tier = TierB,
     va_mem_type = SEMANTIC, va_provenance = sample_provenance, va_status_changed_at = Some (Aware 7), va_q_value = Fin (1 / 10),
     va_scored_use_count = 6, va_distinct_scoring_principals = 1\<rparr>"


theorem retirement_trichotomy_witness:
  "\<exists>out effs. evaluate_retirement (ProjectId 0) default_config (Aware 9) sample_validated = Inr (out, effs) \<and>
     \<not> ro_retired out \<and> ro_routed_to_review out"
proof -
  have a: "retirement_acceptable (ProjectId 0) default_config (\<lambda>_. Aware 9) sample_validated"
    using default_limits by (auto simp: retirement_acceptable_def sample_validated_def)
  have "va_q_value sample_validated = Fin (1 / 10)" "retire_q_threshold sample_limits = Fin (1 / 4)"
    by (simp_all add: sample_validated_def sample_limits_def)
  from retirement_trichotomy [OF a default_limits this] show ?thesis
    by (auto simp: sample_validated_def sample_limits_def)
qed

end
