(* ===== verification/Ring_Buffer.thy ===== *)
theory Ring_Buffer
  imports Ids
begin

text \<open>
  The SDK's ring buffer, \<open>src/src/tracebed/sdk/buffer.py\<close>. Each method runs under the buffer's lock,
  so one call is one step of the state. The body of an item is opaque (\<open>'b\<close>). A method that raises
  changes nothing. The locale \<open>bounded_buffer\<close> is the contract: a bounded store whose losses are
  counted; it is interpreted on the buffer's own steps.
\<close>

section \<open>Definitions\<close>

datatype item_kind = TraceItem | FeedbackItem | ProposalItem

record 'b buffered_item =
  bi_run_id :: run_id
  bi_kind :: item_kind
  bi_seq :: "int option"
  bi_body :: 'b
  bi_encoded :: "'b option"

record 'b ring_buffer =
  rb_capacity :: int
  rb_items :: "'b buffered_item list"
  rb_leased :: "'b buffered_item list"
  rb_run_seq :: "run_id \<rightharpoonup> int"
  rb_dropped_total :: int

definition ring_init :: "int \<Rightarrow> 'b ring_buffer res" where
  "ring_init capacity =
     (if capacity < 1 then raise ValueError
      else ok \<lparr>rb_capacity = capacity, rb_items = [], rb_leased = [], rb_run_seq = Map.empty, rb_dropped_total = 0\<rparr>)"

definition ring_append :: "run_id \<Rightarrow> item_kind \<Rightarrow> 'b \<Rightarrow> 'b ring_buffer \<Rightarrow> int \<times> 'b ring_buffer" where
  "ring_append r kind body b =
     (let (seq, item_seq, b1) =
            (if kind = TraceItem
             then (let seq = (case rb_run_seq b r of None \<Rightarrow> 0 | Some n \<Rightarrow> n)
                   in (seq, Some seq, b\<lparr>rb_run_seq := (rb_run_seq b)(r \<mapsto> seq + 1)\<rparr>))
             else (-1, None, b));
          item = \<lparr>bi_run_id = r, bi_kind = kind, bi_seq = item_seq, bi_body = body, bi_encoded = None\<rparr>
      in if int (length (rb_items b1)) + int (length (rb_leased b1)) \<ge> rb_capacity b1
         then if rb_items b1 \<noteq> []
              then (seq, b1\<lparr>rb_items := tl (rb_items b1) @ [item], rb_dropped_total := rb_dropped_total b1 + 1\<rparr>)
              else (seq, b1\<lparr>rb_dropped_total := rb_dropped_total b1 + 1\<rparr>)
         else (seq, b1\<lparr>rb_items := rb_items b1 @ [item]\<rparr>))"

text \<open>\<open>min(max_items, len(items))\<close> pops; a negative count pops nothing.\<close>

definition pop_count :: "int \<Rightarrow> 'b ring_buffer \<Rightarrow> nat" where
  "pop_count max_items b = nat (min max_items (int (length (rb_items b))))"

definition ring_lease :: "int \<Rightarrow> 'b ring_buffer \<Rightarrow> ('b buffered_item list \<times> 'b ring_buffer) res" where
  "ring_lease max_items b =
     (if rb_leased b \<noteq> [] then raise RuntimeError
      else (let n = pop_count max_items b; batch = take n (rb_items b)
            in ok (batch, b\<lparr>rb_leased := batch, rb_items := drop n (rb_items b)\<rparr>)))"

datatype delivery = Sent | Dropped | Retry

fun settle_loop ::
  "nat \<Rightarrow> ('b buffered_item \<times> delivery) list \<Rightarrow> (nat \<rightharpoonup> 'b buffered_item) \<Rightarrow> int \<Rightarrow> 'b buffered_item list \<Rightarrow> int \<times> 'b buffered_item list" where
  "settle_loop i [] repl lost retries = (lost, retries)"
| "settle_loop i ((item, outcome) # rest) repl lost retries =
     (case outcome of
        Dropped \<Rightarrow> settle_loop (Suc i) rest repl (lost + 1) retries
      | Retry \<Rightarrow> settle_loop (Suc i) rest repl lost (retries @ [case repl i of None \<Rightarrow> item | Some x \<Rightarrow> x])
      | Sent \<Rightarrow> settle_loop (Suc i) rest repl lost retries)"

definition ring_settle ::
  "'b buffered_item list \<Rightarrow> delivery list \<Rightarrow> (nat \<rightharpoonup> 'b buffered_item) \<Rightarrow> 'b ring_buffer \<Rightarrow> 'b ring_buffer res" where
  "ring_settle leased outcomes repl b =
     (if leased \<noteq> rb_leased b \<or> length outcomes \<noteq> length leased then raise RuntimeError
      else (let (lost, retries) = settle_loop 0 (zip leased outcomes) repl 0 []
            in ok (b\<lparr>rb_dropped_total := rb_dropped_total b + lost, rb_leased := [],
                     rb_items := foldl (\<lambda>items item. item # items) (rb_items b) (rev retries)\<rparr>)))"

definition ring_drain :: "int \<Rightarrow> 'b ring_buffer \<Rightarrow> 'b buffered_item list \<times> 'b ring_buffer" where
  "ring_drain max_items b =
     (let n = pop_count max_items b in (take n (rb_items b), b\<lparr>rb_items := drop n (rb_items b)\<rparr>))"

definition pending_count :: "'b ring_buffer \<Rightarrow> nat" where
  "pending_count b = length (rb_items b) + length (rb_leased b)"

section \<open>Steps\<close>

text \<open>One call of the buffer; a settlement names the current lease, as the flusher does.\<close>

datatype 'b ring_op =
    Append run_id item_kind 'b
  | Lease int
  | Settle "delivery list" "nat \<rightharpoonup> 'b buffered_item"
  | Drain int

definition ring_step :: "'b ring_op \<Rightarrow> 'b ring_buffer \<Rightarrow> 'b ring_buffer" where
  "ring_step op b =
     (case op of
        Append r kind body \<Rightarrow> snd (ring_append r kind body b)
      | Lease n \<Rightarrow> (case ring_lease n b of Inl _ \<Rightarrow> b | Inr (_, b') \<Rightarrow> b')
      | Settle outcomes repl \<Rightarrow> (case ring_settle (rb_leased b) outcomes repl b of Inl _ \<Rightarrow> b | Inr b' \<Rightarrow> b')
      | Drain n \<Rightarrow> snd (ring_drain n b))"

text \<open>What an operation takes in and hands out for good.\<close>

definition offered :: "'b ring_op \<Rightarrow> 'b ring_buffer \<Rightarrow> int" where
  "offered op b = (case op of Append _ _ _ \<Rightarrow> 1 | _ \<Rightarrow> 0)"

definition delivered :: "'b ring_op \<Rightarrow> 'b ring_buffer \<Rightarrow> int" where
  "delivered op b =
     (case op of
        Settle outcomes _ \<Rightarrow> if length outcomes = length (rb_leased b) then int (length (filter (\<lambda>x. x = Sent) outcomes)) else 0
      | Drain n \<Rightarrow> int (length (fst (ring_drain n b)))
      | _ \<Rightarrow> 0)"

text \<open>The total of a quantity along a run.\<close>

primrec run_total :: "('op \<Rightarrow> 's \<Rightarrow> 's) \<Rightarrow> ('op \<Rightarrow> 's \<Rightarrow> int) \<Rightarrow> 'op list \<Rightarrow> 's \<Rightarrow> int" where
  "run_total step f [] s = 0"
| "run_total step f (op # ops) s = f op s + run_total step f ops (step op s)"

locale bounded_buffer =
  fixes step :: "'op \<Rightarrow> 's \<Rightarrow> 's"
    and pending :: "'s \<Rightarrow> nat"
    and capacity :: "'s \<Rightarrow> int"
    and dropped :: "'s \<Rightarrow> int"
    and incoming :: "'op \<Rightarrow> 's \<Rightarrow> int"
    and outgoing :: "'op \<Rightarrow> 's \<Rightarrow> int"
    and inv :: "'s \<Rightarrow> bool"
  assumes step_inv: "inv s \<Longrightarrow> inv (step op s)"
    and step_capacity: "capacity (step op s) = capacity s"
    and inv_bound: "inv s \<Longrightarrow> int (pending s) \<le> capacity s"
    and dropped_mono: "dropped s \<le> dropped (step op s)"
    and balance: "inv s \<Longrightarrow>
      int (pending (step op s)) + dropped (step op s) + outgoing op s = int (pending s) + dropped s + incoming op s"
begin

lemma run_inv: "inv s \<Longrightarrow> inv (fold step ops s)"
  by (induction ops arbitrary: s) (simp_all add: step_inv)

lemma run_capacity: "capacity (fold step ops s) = capacity s"
  by (induction ops arbitrary: s) (simp_all add: step_capacity)

lemma run_bounded: "inv s \<Longrightarrow> int (pending (fold step ops s)) \<le> capacity s"
  using inv_bound [OF run_inv] run_capacity by metis

lemma run_dropped_mono: "dropped s \<le> dropped (fold step ops s)"
  by (induction ops arbitrary: s) (auto intro: order_trans [OF dropped_mono])

lemma run_balance:
  "inv s \<Longrightarrow> int (pending (fold step ops s)) + dropped (fold step ops s) + run_total step outgoing ops s =
     int (pending s) + dropped s + run_total step incoming ops s"
proof (induction ops arbitrary: s)
  case (Cons op ops)
  then show ?case using Cons.IH [OF step_inv [OF Cons.prems, of op]] balance [OF Cons.prems, of op] by simp
qed simp

end

section \<open>The buffer keeps the contract\<close>

definition ring_inv :: "'b ring_buffer \<Rightarrow> bool" where
  "ring_inv b \<longleftrightarrow> 1 \<le> rb_capacity b \<and> int (pending_count b) \<le> rb_capacity b"

text \<open>The items a settlement keeps, in order.\<close>

fun kept :: "nat \<Rightarrow> ('b buffered_item \<times> delivery) list \<Rightarrow> (nat \<rightharpoonup> 'b buffered_item) \<Rightarrow> 'b buffered_item list" where
  "kept i [] repl = []"
| "kept i ((item, outcome) # rest) repl =
     (if outcome = Retry then [case repl i of None \<Rightarrow> item | Some x \<Rightarrow> x] else []) @ kept (Suc i) rest repl"

lemma settle_loop_eq:
  "settle_loop i ps repl lost retries = (lost + int (length (filter (\<lambda>p. snd p = Dropped) ps)), retries @ kept i ps repl)"
  by (induction i ps repl lost retries rule: settle_loop.induct) (auto split: delivery.splits)

lemma length_kept: "length (kept i ps repl) = length (filter (\<lambda>p. snd p = Retry) ps)"
  by (induction i ps repl rule: kept.induct) auto

lemma foldl_push: "foldl (\<lambda>items item. item # items) ys (rev xs) = xs @ ys"
  by (induction xs) simp_all

lemma ring_settle_eq:
  "ring_settle leased outcomes repl b =
     (if leased = rb_leased b \<and> length outcomes = length leased
      then ok (b\<lparr>rb_dropped_total := rb_dropped_total b + int (length (filter (\<lambda>x. x = Dropped) outcomes)), rb_leased := [],
                 rb_items := kept 0 (zip leased outcomes) repl @ rb_items b\<rparr>)
      else raise RuntimeError)"
proof -
  have f: "length (filter (\<lambda>p. snd p = x) (zip xs ys)) = length (filter (\<lambda>y. y = x) ys)" if "length xs = length ys"
    for x and xs :: "'b buffered_item list" and ys :: "delivery list"
    using that by (induction rule: list_induct2) simp_all
  show ?thesis using f [of leased outcomes Dropped] by (auto simp: ring_settle_def settle_loop_eq foldl_push)
qed

lemma delivery_count:
  "length (filter (\<lambda>x. x = Sent) os) + length (filter (\<lambda>x. x = Dropped) os) + length (filter (\<lambda>x. x = Retry) os) = length os"
  by (induction os) (auto split: delivery.splits intro: delivery.exhaust)

lemma length_kept_zip: "length xs = length os \<Longrightarrow> length (kept i (zip xs os) repl) = length (filter (\<lambda>x. x = Retry) os)"
proof -
  assume "length xs = length os"
  then have "length (filter (\<lambda>p. snd p = Retry) (zip xs os)) = length (filter (\<lambda>y. y = Retry) os)"
    by (induction rule: list_induct2) simp_all
  then show ?thesis by (simp add: length_kept)
qed

lemma pop_count_le: "pop_count n b \<le> length (rb_items b)"
  by (simp add: pop_count_def)

lemma ring_append_effect:
  "rb_capacity (snd (ring_append r k x b)) = rb_capacity b \<and> rb_leased (snd (ring_append r k x b)) = rb_leased b \<and>
   (if int (pending_count b) < rb_capacity b
    then (\<exists>it. rb_items (snd (ring_append r k x b)) = rb_items b @ [it]) \<and> rb_dropped_total (snd (ring_append r k x b)) = rb_dropped_total b
    else rb_dropped_total (snd (ring_append r k x b)) = rb_dropped_total b + 1 \<and>
      (if rb_items b = [] then rb_items (snd (ring_append r k x b)) = []
       else \<exists>it. rb_items (snd (ring_append r k x b)) = tl (rb_items b) @ [it]))"
  by (auto simp: ring_append_def pending_count_def Let_def)

lemma ring_step_capacity: "rb_capacity (ring_step op b) = rb_capacity b"
  by (cases op) (auto simp: ring_step_def ring_append_effect ring_lease_def ring_settle_eq ring_drain_def Let_def split: sum.split)

lemma ring_step_dropped: "rb_dropped_total b \<le> rb_dropped_total (ring_step op b)"
proof (cases op)
  case (Append r k x)
  then show ?thesis using ring_append_effect [of r k x b] by (auto simp: ring_step_def split: if_splits)
qed (auto simp: ring_step_def ring_lease_def ring_settle_eq ring_drain_def Let_def split: sum.split)

lemma ring_step_balance:
  "int (pending_count (ring_step op b)) + rb_dropped_total (ring_step op b) + delivered op b =
     int (pending_count b) + rb_dropped_total b + offered op b"
proof (cases op)
  case (Append r k x)
  then show ?thesis using ring_append_effect [of r k x b]
    by (cases "rb_items b") (auto simp: ring_step_def pending_count_def delivered_def offered_def split: if_splits)
next
  case (Settle os repl)
  then show ?thesis using delivery_count [of os] length_kept_zip [of "rb_leased b" os 0 repl]
    by (auto simp: ring_step_def ring_settle_eq pending_count_def delivered_def offered_def)
qed (use pop_count_le in \<open>auto simp: ring_step_def ring_lease_def ring_drain_def pending_count_def delivered_def offered_def Let_def\<close>)

lemma ring_step_inv: "ring_inv b \<Longrightarrow> ring_inv (ring_step op b)"
proof (cases op)
  case (Append r k x)
  assume "ring_inv b"
  then show ?thesis using Append ring_append_effect [of r k x b]
    by (cases "rb_items b") (auto simp: ring_inv_def ring_step_def pending_count_def split: if_splits)
next
  case (Settle os repl)
  assume "ring_inv b"
  then show ?thesis using Settle delivery_count [of os] length_kept_zip [of "rb_leased b" os 0 repl]
    by (auto simp: ring_inv_def ring_step_def ring_settle_eq pending_count_def)
qed (use pop_count_le in \<open>auto simp: ring_inv_def ring_step_def ring_lease_def ring_drain_def pending_count_def Let_def\<close>)

interpretation ring: bounded_buffer ring_step pending_count rb_capacity rb_dropped_total offered delivered ring_inv
proof (unfold_locales, goal_cases)
  case (1 s op)
  then show ?case by (rule ring_step_inv)
next
  case (2 op s)
  show ?case by (rule ring_step_capacity)
next
  case (3 s)
  then show ?case by (simp add: ring_inv_def)
next
  case (4 s op)
  show ?case by (rule ring_step_dropped)
next
  case (5 s op)
  show ?case by (rule ring_step_balance)
qed

section \<open>Order of trace items\<close>

definition item_key :: "'b buffered_item \<Rightarrow> run_id \<times> item_kind \<times> int option" where
  "item_key it = (bi_run_id it, bi_kind it, bi_seq it)"

definition queue_keys :: "'b ring_buffer \<Rightarrow> (run_id \<times> item_kind \<times> int option) list" where
  "queue_keys b = map item_key (rb_leased b @ rb_items b)"

text \<open>The sequence numbers of one run's trace items, oldest first.\<close>

definition key_seqs :: "run_id \<Rightarrow> (run_id \<times> item_kind \<times> int option) list \<Rightarrow> int list" where
  "key_seqs r ks = map (\<lambda>(_, _, s). the s) (filter (\<lambda>(r', k, _). r' = r \<and> k = TraceItem) ks)"

definition trace_seqs :: "run_id \<Rightarrow> 'b ring_buffer \<Rightarrow> int list" where
  "trace_seqs r b = key_seqs r (queue_keys b)"

definition next_seq :: "run_id \<Rightarrow> 'b ring_buffer \<Rightarrow> int" where
  "next_seq r b = (case rb_run_seq b r of None \<Rightarrow> 0 | Some n \<Rightarrow> n)"

text \<open>A replacement carries the identity of the item it replaces.\<close>

definition faithful :: "'b ring_op \<Rightarrow> 'b ring_buffer \<Rightarrow> bool" where
  "faithful op b \<longleftrightarrow> (case op of Settle _ repl \<Rightarrow> \<forall>i<length (rb_leased b). \<forall>x. repl i = Some x \<longrightarrow> item_key x = item_key (rb_leased b ! i) | _ \<Rightarrow> True)"

fun count_trace :: "'b ring_op \<Rightarrow> (run_id \<Rightarrow> nat) \<Rightarrow> run_id \<Rightarrow> nat" where
  "count_trace (Append r TraceItem x) n = n(r := n r + 1)"
| "count_trace _ n = n"

inductive ring_reachable :: "int \<Rightarrow> (run_id \<Rightarrow> nat) \<Rightarrow> 'b ring_buffer \<Rightarrow> bool" for capacity where
  start: "ring_init capacity = ok b \<Longrightarrow> ring_reachable capacity (\<lambda>_. 0) b"
| step: "ring_reachable capacity n b \<Longrightarrow> faithful op b \<Longrightarrow> ring_reachable capacity (count_trace op n) (ring_step op b)"

lemma key_seqs_subseq: "subseq ks ks' \<Longrightarrow> subseq (key_seqs r ks) (key_seqs r ks')"
  by (simp add: key_seqs_def subseq_map subseq_filter)

lemma kept_keys:
  assumes "length os = length xs" "\<forall>j<length xs. \<forall>x. repl (i + j) = Some x \<longrightarrow> item_key x = item_key (xs ! j)"
  shows "subseq (map item_key (kept i (zip xs os) repl)) (map item_key xs)"
  using assms
proof (induction os xs arbitrary: i rule: list_induct2)
  case (Cons p os x xs)
  have "\<forall>j<length xs. \<forall>y. repl (Suc i + j) = Some y \<longrightarrow> item_key y = item_key (xs ! j)"
    using Cons.prems by (metis Suc_less_eq add_Suc_shift length_Cons nth_Cons_Suc)
  from Cons.IH [OF this] have "subseq (map item_key (kept (Suc i) (zip xs os) repl)) (map item_key xs)" .
  moreover have "item_key (case repl i of None \<Rightarrow> x | Some y \<Rightarrow> y) = item_key x"
    using Cons.prems [rule_format, of 0] by (cases "repl i") simp_all
  ultimately show ?case by (cases "p = Retry") (simp_all add: list_emb_Cons)
qed simp

definition ordered :: "(run_id \<Rightarrow> nat) \<Rightarrow> 'b ring_buffer \<Rightarrow> bool" where
  "ordered n b \<longleftrightarrow> (\<forall>r. next_seq r b = int (n r) \<and> sorted_wrt (<) (trace_seqs r b) \<and> (\<forall>s\<in>set (trace_seqs r b). 0 \<le> s \<and> s < int (n r)))"

lemma ordered_subseq:
  assumes "ordered n b" "rb_run_seq b' = rb_run_seq b" "subseq (queue_keys b') (queue_keys b)"
  shows "ordered n b'"
  unfolding ordered_def
proof (intro allI)
  fix r
  have sub: "subseq (trace_seqs r b') (trace_seqs r b)" using key_seqs_subseq [OF assms(3)] by (simp add: trace_seqs_def)
  have "next_seq r b' = int (n r)" using assms(1,2) by (simp add: ordered_def next_seq_def)
  moreover have "sorted_wrt (<) (trace_seqs r b')" using sub assms(1) sorted_wrt_subseq unfolding ordered_def by blast
  ultimately show "next_seq r b' = int (n r) \<and> sorted_wrt (<) (trace_seqs r b') \<and> (\<forall>s\<in>set (trace_seqs r b'). 0 \<le> s \<and> s < int (n r))"
    using subseq_set [OF sub] assms(1) unfolding ordered_def by blast
qed

lemma ring_append_keys:
  "queue_keys (snd (ring_append r k x b)) =
     (let key = (r, k, if k = TraceItem then Some (next_seq r b) else None) in
      if int (pending_count b) < rb_capacity b then queue_keys b @ [key]
      else if rb_items b = [] then queue_keys b
      else map item_key (rb_leased b @ tl (rb_items b)) @ [key])"
  by (auto simp: ring_append_def Let_def queue_keys_def item_key_def pending_count_def next_seq_def)

lemma ring_append_keys_subseq:
  obtains ks where "subseq ks (queue_keys b)"
    "queue_keys (snd (ring_append r k x b)) = ks @ [(r, k, if k = TraceItem then Some (next_seq r b) else None)] \<or>
     queue_keys (snd (ring_append r k x b)) = ks"
proof -
  have "subseq (map item_key (rb_leased b @ tl (rb_items b))) (queue_keys b)"
    by (cases "rb_items b") (auto simp: queue_keys_def intro!: list_emb_append_mono)
  then show ?thesis
    using that [of "queue_keys b"] that [of "map item_key (rb_leased b @ tl (rb_items b))"]
    unfolding ring_append_keys Let_def by (metis subseq_order.refl)
qed

lemma ordered_append_trace:
  assumes ord: "ordered n b"
  shows "ordered (n(r := n r + 1)) (snd (ring_append r TraceItem x b))"
proof -
  let ?b = "snd (ring_append r TraceItem x b)"
  let ?k = "(r, TraceItem, Some (int (n r)))"
  have nx: "(case rb_run_seq b r of None \<Rightarrow> 0 | Some m \<Rightarrow> m) = int (n r)" using ord by (simp add: ordered_def next_seq_def)
  have rs: "rb_run_seq ?b = (rb_run_seq b)(r \<mapsto> int (n r) + 1)" by (simp add: ring_append_def nx Let_def)
  obtain ks where ks: "subseq ks (queue_keys b)" "queue_keys ?b = ks @ [?k] \<or> queue_keys ?b = ks"
    using ring_append_keys_subseq [of b r TraceItem x] nx by (auto simp: next_seq_def)
  have old: "sorted_wrt (<) (key_seqs r' ks) \<and> (\<forall>s\<in>set (key_seqs r' ks). 0 \<le> s \<and> s < int (n r'))" for r'
  proof -
    have "subseq (key_seqs r' ks) (trace_seqs r' b)" using key_seqs_subseq [OF ks(1)] by (simp add: trace_seqs_def)
    then show ?thesis using ord subseq_set sorted_wrt_subseq unfolding ordered_def by blast
  qed
  have app: "key_seqs r' (ks @ [?k]) = key_seqs r' ks @ (if r' = r then [int (n r)] else [])" for r' by (simp add: key_seqs_def)
  have "sorted_wrt (<) (trace_seqs r' ?b) \<and> (\<forall>s\<in>set (trace_seqs r' ?b). 0 \<le> s \<and> s < int ((n(r := n r + 1)) r'))" for r'
    using ks(2) old [of r'] by (force simp: trace_seqs_def app sorted_wrt_append)
  moreover have "next_seq r' ?b = int ((n(r := n r + 1)) r')" for r'
    using ord unfolding next_seq_def rs ordered_def by simp
  ultimately show ?thesis unfolding ordered_def by blast
qed

lemma ordered_append_other:
  assumes "ordered n b" "k \<noteq> TraceItem"
  shows "ordered n (snd (ring_append r k x b))"
proof -
  let ?b = "snd (ring_append r k x b)"
  obtain ks where ks: "subseq ks (queue_keys b)" "queue_keys ?b = ks @ [(r, k, None)] \<or> queue_keys ?b = ks"
    using ring_append_keys_subseq [of b r k x] assms(2) by auto
  have "trace_seqs r' ?b = key_seqs r' ks" for r' using ks(2) assms(2) by (auto simp: trace_seqs_def key_seqs_def)
  moreover have "rb_run_seq ?b = rb_run_seq b" using assms(2) by (simp add: ring_append_def Let_def)
  moreover have "subseq (key_seqs r' ks) (trace_seqs r' b)" for r' using key_seqs_subseq [OF ks(1)] by (simp add: trace_seqs_def)
  ultimately show ?thesis using assms(1) subseq_set sorted_wrt_subseq unfolding ordered_def next_seq_def by (metis subsetD)
qed

lemma ordered_step:
  assumes "ordered n b" "faithful op b"
  shows "ordered (count_trace op n) (ring_step op b)"
proof (cases op)
  case (Append r k x)
  then show ?thesis using ordered_append_trace [OF assms(1)] ordered_append_other [OF assms(1)]
    by (cases k) (simp_all add: ring_step_def)
next
  case (Lease m)
  have "queue_keys (ring_step op b) = queue_keys b" "rb_run_seq (ring_step op b) = rb_run_seq b"
    by (simp_all add: Lease ring_step_def ring_lease_def queue_keys_def Let_def flip: take_map drop_map)
  then show ?thesis using assms(1) Lease by (simp add: ordered_def trace_seqs_def next_seq_def)
next
  case (Settle os repl)
  show ?thesis
  proof (cases "length os = length (rb_leased b)")
    case True
    have "subseq (map item_key (kept 0 (zip (rb_leased b) os) repl)) (map item_key (rb_leased b))"
      using assms(2) Settle True by (intro kept_keys) (auto simp: faithful_def)
    then have "subseq (queue_keys (ring_step op b)) (queue_keys b)"
      using Settle True by (simp add: ring_step_def ring_settle_eq queue_keys_def list_emb_append_mono)
    moreover have "rb_run_seq (ring_step op b) = rb_run_seq b" using Settle True by (simp add: ring_step_def ring_settle_eq)
    ultimately show ?thesis using ordered_subseq [OF assms(1)] Settle by simp
  next
    case False
    then show ?thesis using assms(1) Settle by (simp add: ring_step_def ring_settle_eq)
  qed
next
  case (Drain m)
  have "subseq (drop j xs) xs" for j and xs :: "'a buffered_item list"
    using list_emb_append2 [of "(=)" "drop j xs" "drop j xs" "take j xs"] by simp
  then have "subseq (queue_keys (ring_step op b)) (queue_keys b)"
    unfolding Drain by (simp add: ring_step_def ring_drain_def queue_keys_def Let_def list_emb_append_mono subseq_map)
  moreover have "rb_run_seq (ring_step op b) = rb_run_seq b" unfolding Drain by (simp add: ring_step_def ring_drain_def Let_def)
  ultimately show ?thesis using ordered_subseq [OF assms(1)] Drain by simp
qed

lemma ordered_reachable: "ring_reachable capacity n b \<Longrightarrow> ordered n b"
proof (induction rule: ring_reachable.induct)
  case (start b)
  then show ?case by (auto simp: ring_init_def ordered_def next_seq_def trace_seqs_def key_seqs_def queue_keys_def split: if_splits)
next
  case (step n b op)
  then show ?case by (intro ordered_step)
qed

section \<open>Properties\<close>

text \<open>
  C24. Bounded and accounted for: from a fresh buffer, whatever sequence of appends, leases, settlements
  and drains runs, no more than the capacity is retained, the drop counter never decreases, and every
  item offered is delivered, counted as dropped, or still pending.
\<close>

theorem ring_conservation:
  assumes "ring_init capacity = ok b"
  shows "int (pending_count (fold ring_step ops b)) \<le> capacity \<and>
     int (pending_count (fold ring_step ops b)) + rb_dropped_total (fold ring_step ops b) + run_total ring_step delivered ops b
       = run_total ring_step offered ops b \<and>
     rb_dropped_total (fold ring_step ops b) \<le> rb_dropped_total (fold ring_step (ops @ more_ops) b)"
proof -
  have b: "ring_inv b" "rb_capacity b = capacity" "pending_count b = 0" "rb_dropped_total b = 0"
    using assms by (auto simp: ring_init_def ring_inv_def pending_count_def split: if_splits)
  then show ?thesis using ring.run_bounded [OF b(1)] ring.run_balance [OF b(1)] ring.run_dropped_mono by simp
qed

text \<open>
  C25. Gapless, ordered trace numbers: in every reachable state the next trace item of a run gets the
  number of trace items appended for that run so far, and the queue, leased batch first, holds each
  run's numbers in increasing order, also after retries.
\<close>

theorem ring_trace_order:
  assumes "ring_reachable capacity n b"
  shows "fst (ring_append r TraceItem x b) = int (n r) \<and> sorted_wrt (<) (trace_seqs r' b) \<and> set (trace_seqs r' b) \<subseteq> {0..<int (n r')}"
proof -
  have "next_seq r b = int (n r)" "sorted_wrt (<) (trace_seqs r' b)" "set (trace_seqs r' b) \<subseteq> {0..<int (n r')}"
    using ordered_reachable [OF assms] by (auto simp: ordered_def)
  moreover have "fst (ring_append r TraceItem x b) = next_seq r b" by (simp add: ring_append_def next_seq_def Let_def)
  ultimately show ?thesis by simp
qed

text \<open>
  C26. A failed flush loses nothing and reorders nothing: leasing a batch and settling it all as retry
  gives back the buffer as it was; a second lease before settling is refused.
\<close>

theorem lease_retry_roundtrip:
  assumes "ring_lease k b = ok (batch, b1)"
  shows "ring_settle batch (replicate (length batch) Retry) Map.empty b1 = ok b \<and>
     (batch \<noteq> [] \<longrightarrow> ring_lease k' b1 = raise RuntimeError)"
proof -
  have kept: "kept i (zip xs (replicate (length xs) Retry)) Map.empty = xs" for i and xs :: "'a buffered_item list"
    by (induction xs arbitrary: i) simp_all
  have l: "rb_leased b = []" "batch = take (pop_count k b) (rb_items b)"
    "b1 = b\<lparr>rb_leased := batch, rb_items := drop (pop_count k b) (rb_items b)\<rparr>"
    using assms by (auto simp: ring_lease_def Let_def split: if_splits)
  have "ring_settle batch (replicate (length batch) Retry) Map.empty b1 = ok (b\<lparr>rb_leased := [], rb_items := rb_items b\<rparr>)"
    by (simp add: ring_settle_eq l(3) kept) (simp add: l(2))
  then show ?thesis using l by (simp add: ring_lease_def)
qed

text \<open>
  What a full buffer loses: the oldest queued item and nothing else, or the new item when every slot
  is leased; a leased item is never evicted.
\<close>

theorem ring_append_overflow:
  assumes "ring_inv b" "int (pending_count b) = rb_capacity b"
  shows "rb_leased (snd (ring_append r k x b)) = rb_leased b \<and>
     rb_dropped_total (snd (ring_append r k x b)) = rb_dropped_total b + 1 \<and>
     pending_count (snd (ring_append r k x b)) = pending_count b \<and>
     (if rb_items b = [] then rb_items (snd (ring_append r k x b)) = []
      else \<exists>it. rb_items (snd (ring_append r k x b)) = tl (rb_items b) @ [it] \<and> bi_body it = x \<and> bi_run_id it = r)"
  using assms by (cases "rb_items b") (auto simp: ring_append_def pending_count_def Let_def)

section \<open>Witnesses\<close>

definition sample_ring :: "nat ring_buffer" where
  "sample_ring = \<lparr>rb_capacity = 2, rb_items = [], rb_leased = [], rb_run_seq = Map.empty, rb_dropped_total = 0\<rparr>"

lemma sample_ring_init: "ring_init 2 = ok sample_ring"
  by (simp add: ring_init_def sample_ring_def)

theorem ring_conservation_witness:
  "int (pending_count (fold ring_step [Append (RunId 1) TraceItem 7, Append (RunId 1) TraceItem 8, Append (RunId 1) TraceItem 9] sample_ring)) \<le> 2"
  using ring_conservation [OF sample_ring_init] by blast

theorem ring_trace_order_witness:
  "fst (ring_append (RunId 1) TraceItem 8 (ring_step (Append (RunId 1) TraceItem 7) sample_ring)) = 1"
proof -
  have "ring_reachable 2 (count_trace (Append (RunId 1) TraceItem (7 :: nat)) (\<lambda>_. 0)) (ring_step (Append (RunId 1) TraceItem 7) sample_ring)"
    using sample_ring_init by (intro ring_reachable.intros) (simp_all add: faithful_def)
  from ring_trace_order [OF this] show ?thesis by fastforce
qed

theorem lease_retry_roundtrip_witness:
  "\<exists>batch b1. ring_lease 5 (ring_step (Append (RunId 1) TraceItem 7) sample_ring) = ok (batch, b1) \<and>
     ring_settle batch (replicate (length batch) Retry) Map.empty b1 = ok (ring_step (Append (RunId 1) TraceItem 7) sample_ring)"
proof -
  let ?b = "ring_step (Append (RunId 1) TraceItem 7) sample_ring"
  have "rb_leased ?b = []" by (simp add: ring_step_def ring_append_effect sample_ring_def)
  then obtain batch b1 where "ring_lease 5 ?b = ok (batch, b1)" by (simp add: ring_lease_def Let_def)
  then show ?thesis using lease_retry_roundtrip by blast
qed

theorem ring_append_overflow_witness:
  "rb_dropped_total (snd (ring_append (RunId 1) FeedbackItem 8 (sample_ring\<lparr>rb_capacity := 1, rb_leased := [\<lparr>bi_run_id = RunId 1,
     bi_kind = TraceItem, bi_seq = Some 0, bi_body = 7, bi_encoded = None\<rparr>]\<rparr>))) = 1"
proof -
  let ?b = "sample_ring\<lparr>rb_capacity := 1, rb_leased := [\<lparr>bi_run_id = RunId 1, bi_kind = TraceItem, bi_seq = Some 0, bi_body = 7, bi_encoded = None\<rparr>]\<rparr>"
  have "ring_inv ?b" "int (pending_count ?b) = rb_capacity ?b" by (simp_all add: ring_inv_def pending_count_def sample_ring_def)
  from ring_append_overflow [OF this] show ?thesis by (simp add: sample_ring_def)
qed

end
