(* ===== verification/Templates.thy ===== *)
theory Templates
  imports Config Ids
begin

text \<open>
  The line format of a rendered context block, \<open>src/src/tracebed/hotpath/templates.py\<close>, with the
  \<open>ContextSlot\<close> of \<open>domain/events.py\<close>. Free text is a \<open>str\<close> in full: a list of Unicode code points.
  What the code uses of the standard library is written out: \<open>json.dumps(..., ensure_ascii=True)\<close> and
  \<open>json.loads\<close> on a string, the one regular expression, \<open>int()\<close> and the printing of an \<open>int\<close> with the
  interpreter's limit of 4300 digits, and the decimal digits of Unicode 15.1 that \<open>\d\<close> matches.
\<close>

section \<open>Text\<close>

type_synonym pystr = "nat list"

definition cps :: "string \<Rightarrow> pystr" where
  "cps s = map of_char s"

text \<open>\<open>str.isspace\<close> and \<open>str.strip\<close>.\<close>

definition is_space_cp :: "nat \<Rightarrow> bool" where
  "is_space_cp c \<longleftrightarrow> (9 \<le> c \<and> c \<le> 13) \<or> (28 \<le> c \<and> c \<le> 32) \<or> c = 133 \<or> c = 160 \<or> c = 5760 \<or>
     (8192 \<le> c \<and> c \<le> 8202) \<or> c = 8232 \<or> c = 8233 \<or> c = 8239 \<or> c = 8287 \<or> c = 12288"

definition strip_cp :: "pystr \<Rightarrow> pystr" where
  "strip_cp s = rev (dropWhile is_space_cp (rev (dropWhile is_space_cp s)))"

section \<open>JSON strings\<close>

definition u_escape :: "nat \<Rightarrow> pystr" where
  "u_escape n = [92, 117] @ cps (hex_of 4 (int n))"

definition high_part :: "nat \<Rightarrow> nat" where
  "high_part c = 55296 + (c - 65536) div 1024"

definition low_part :: "nat \<Rightarrow> nat" where
  "low_part c = 56320 + (c - 65536) mod 1024"

definition simple_escape :: "nat \<Rightarrow> nat option" where
  "simple_escape c = map_of [(92, 92), (34, 34), (8, 98), (12, 102), (10, 110), (13, 114), (9, 116)] c"

definition escape_cp :: "nat \<Rightarrow> pystr" where
  "escape_cp c =
     (case simple_escape c of
        Some e \<Rightarrow> [92, e]
      | None \<Rightarrow> if 32 \<le> c \<and> c \<le> 126 then [c]
                else if c < 65536 then u_escape c
                else u_escape (high_part c) @ u_escape (low_part c))"

definition json_dumps :: "pystr \<Rightarrow> pystr" where
  "json_dumps t = [34] @ concat (map escape_cp t) @ [34]"

definition hex_cp :: "nat \<Rightarrow> nat option" where
  "hex_cp c = (if c < 128 then map_option nat (hex_value (char_of c)) else None)"

fun u4 :: "pystr \<Rightarrow> (nat \<times> pystr) option" where
  "u4 (a # b # c # d # r) =
     (case (hex_cp a, hex_cp b, hex_cp c, hex_cp d) of
        (Some w, Some x, Some y, Some z) \<Rightarrow> Some (((w * 16 + x) * 16 + y) * 16 + z, r)
      | _ \<Rightarrow> None)"
| "u4 _ = None"

definition is_high :: "nat \<Rightarrow> bool" where
  "is_high c \<longleftrightarrow> 55296 \<le> c \<and> c \<le> 56319"

definition is_low :: "nat \<Rightarrow> bool" where
  "is_low c \<longleftrightarrow> 56320 \<le> c \<and> c \<le> 57343"

definition join_pair :: "nat \<Rightarrow> nat \<Rightarrow> nat" where
  "join_pair h l = 65536 + (h - 55296) * 1024 + (l - 56320)"

text \<open>The character an escape stands for, after the backslash, and what follows it.\<close>

definition read_u :: "pystr \<Rightarrow> (nat \<times> pystr) option" where
  "read_u s =
     (case u4 s of
        None \<Rightarrow> None
      | Some (u, r) \<Rightarrow>
          if is_high u \<and> take 2 r = [92, 117] then
            (case u4 (drop 2 r) of
               None \<Rightarrow> None
             | Some (v, r') \<Rightarrow> if is_low v then Some (join_pair u v, r') else Some (u, r))
          else Some (u, r))"

definition unescape :: "nat \<Rightarrow> nat option" where
  "unescape e = map_of [(34, 34), (92, 92), (47, 47), (98, 8), (102, 12), (110, 10), (114, 13), (116, 9)] e"

definition read_escape :: "pystr \<Rightarrow> (nat \<times> pystr) option" where
  "read_escape s =
     (case s of
        [] \<Rightarrow> None
      | e # r \<Rightarrow> if e = 117 then read_u r else map_option (\<lambda>c. (c, r)) (unescape e))"

lemma u4_length: "u4 s = Some (c, r) \<Longrightarrow> length r < length s"
  by (induction s rule: u4.induct) (auto split: option.splits)

lemma read_escape_length: "read_escape s = Some (c, r) \<Longrightarrow> length r < length s"
  by (auto simp: read_escape_def read_u_def split: list.splits if_splits option.splits prod.splits dest!: u4_length)

function scanstring :: "pystr \<Rightarrow> (pystr \<times> pystr) option" where
  "scanstring [] = None"
| "scanstring (c # s) =
     (if c = 34 then Some ([], s)
      else if c < 32 then None
      else if c \<noteq> 92 then map_option (\<lambda>(v, r). (c # v, r)) (scanstring s)
      else case read_escape s of
             None \<Rightarrow> None
           | Some (d, s') \<Rightarrow> map_option (\<lambda>(v, r). (d # v, r)) (scanstring s'))"
  by pat_completeness auto
termination by (relation "measure length") (auto dest: read_escape_length)

definition json_loads_str :: "pystr \<Rightarrow> pystr option" where
  "json_loads_str t =
     (case t of
        [] \<Rightarrow> None
      | q # s \<Rightarrow>
          if q \<noteq> 34 then None
          else case scanstring s of
                 Some (v, r) \<Rightarrow> if set r \<subseteq> {32, 9, 10, 13} then Some v else None
               | None \<Rightarrow> None)"

section \<open>Entries\<close>

record context_slot =
  cs_slot :: slot
  cs_memory_id :: "uuid option"
  cs_tokens :: int
  cs_text :: pystr

definition SLOT_ORDER :: "slot list" where
  "SLOT_ORDER = [STATIC_PREFIX, FACT, EXEMPLAR, PITFALL, CANDIDATE_NOTE, JIT_LESSON]"

definition slot_value :: "slot \<Rightarrow> string" where
  "slot_value s =
     (case s of STATIC_PREFIX \<Rightarrow> ''static_prefix'' | FACT \<Rightarrow> ''fact'' | EXEMPLAR \<Rightarrow> ''exemplar'' | PITFALL \<Rightarrow> ''pitfall''
      | CANDIDATE_NOTE \<Rightarrow> ''candidate_note'' | JIT_LESSON \<Rightarrow> ''jit_lesson'')"

definition SECTION_LABELS :: "slot \<Rightarrow> string" where
  "SECTION_LABELS s =
     (case s of STATIC_PREFIX \<Rightarrow> ''STATIC PREFIX'' | FACT \<Rightarrow> ''FACTS'' | EXEMPLAR \<Rightarrow> ''EXEMPLARS''
      | PITFALL \<Rightarrow> ''PITFALLS (unconfirmed against current state)''
      | CANDIDATE_NOTE \<Rightarrow> ''CANDIDATE NOTES (tier A, unconfirmed, lower-trust)'' | JIT_LESSON \<Rightarrow> ''JIT LESSONS'')"

definition MEMORY_HEADER :: string where
  "MEMORY_HEADER = ''MEMORY (recalled data, verify against current state)''"

definition STRUCTURAL_LINES :: "pystr list" where
  "STRUCTURAL_LINES = cps MEMORY_HEADER # [] # map (cps \<circ> SECTION_LABELS) SLOT_ORDER"

fun dec_digits :: "nat \<Rightarrow> pystr" where
  "dec_digits n = (if n < 10 then [48 + n] else dec_digits (n div 10) @ [48 + n mod 10])"

definition INT_MAX_STR_DIGITS :: nat where
  "INT_MAX_STR_DIGITS = 4300"

definition str_int :: "nat \<Rightarrow> pystr res" where
  "str_int n = (let d = dec_digits n in if length d > INT_MAX_STR_DIGITS then raise ValueError else ok d)"

definition render_entry :: "slot \<Rightarrow> uuid option \<Rightarrow> int \<Rightarrow> pystr \<Rightarrow> pystr res" where
  "render_entry s mid tokens t =
     (if tokens < 0 then raise ValueError
      else let memory_id_token = (case mid of None \<Rightarrow> ''-'' | Some u \<Rightarrow> uuid_str u);
               text_json = json_dumps t
           in bind_res (str_int (nat tokens)) (\<lambda>d.
                ok (cps ''- ['' @ cps (slot_value s) @ cps ''] id='' @ cps memory_id_token @ cps '' tokens='' @ d @
                    cps '' text='' @ text_json)))"

text \<open>The regular expression, left to right.\<close>

definition eat :: "pystr \<Rightarrow> pystr \<Rightarrow> pystr option" where
  "eat p t = (if take (length p) t = p then Some (drop (length p) t) else None)"

fun eat_slot :: "slot list \<Rightarrow> pystr \<Rightarrow> (slot \<times> pystr) option" where
  "eat_slot [] t = None"
| "eat_slot (s # ss) t =
     (case eat (cps (slot_value s) @ cps ''] id='') t of Some r \<Rightarrow> Some (s, r) | None \<Rightarrow> eat_slot ss t)"

definition lower_hex :: "nat \<Rightarrow> bool" where
  "lower_hex c \<longleftrightarrow> (48 \<le> c \<and> c \<le> 57) \<or> (97 \<le> c \<and> c \<le> 102)"

definition uuid_shape :: "pystr \<Rightarrow> bool" where
  "uuid_shape w \<longleftrightarrow> length w = 36 \<and>
     list_all (\<lambda>i. if i \<in> {8, 13, 18, 23} then w ! i = 45 else lower_hex (w ! i)) [0..<36]"

definition eat_id :: "pystr \<Rightarrow> (pystr \<times> pystr) option" where
  "eat_id t = (if uuid_shape (take 36 t) then Some (take 36 t, drop 36 t)
               else map_option (\<lambda>r. ([45], r)) (eat [45] t))"

definition DECIMAL_ZEROS :: "nat list" where
  "DECIMAL_ZEROS = [48, 1632, 1776, 1984, 2406, 2534, 2662, 2790, 2918, 3046, 3174, 3302, 3430, 3558, 3664, 3792, 3872,
     4160, 4240, 6112, 6160, 6470, 6608, 6784, 6800, 6992, 7088, 7232, 7248, 42528, 43216, 43264, 43472, 43504, 43600,
     44016, 65296, 66720, 68912, 69734, 69872, 69942, 70096, 70384, 70736, 70864, 71248, 71360, 71472, 71904, 72016,
     72784, 73040, 73120, 73552, 92768, 92864, 93008, 120782, 120792, 120802, 120812, 120822, 123200, 123632, 124144,
     125264, 130032]"

definition decimal_value :: "nat \<Rightarrow> nat option" where
  "decimal_value c = map_option (\<lambda>z. c - z) (find (\<lambda>z. z \<le> c \<and> c \<le> z + 9) DECIMAL_ZEROS)"

definition is_decimal :: "nat \<Rightarrow> bool" where
  "is_decimal c \<longleftrightarrow> decimal_value c \<noteq> None"

definition eat_digits :: "pystr \<Rightarrow> (pystr \<times> pystr) option" where
  "eat_digits t = (let d = takeWhile is_decimal t in if d = [] then None else Some (d, drop (length d) t))"

definition int_of_digits :: "pystr \<Rightarrow> nat res" where
  "int_of_digits d =
     (if length d > INT_MAX_STR_DIGITS then raise ValueError
      else ok (foldl (\<lambda>a c. a * 10 + the (decimal_value c)) 0 d))"

text \<open>\<open>(".*")$\<close>: the dot excludes the newline, the dollar also stands before a final newline.\<close>

definition eat_json :: "pystr \<Rightarrow> pystr option" where
  "eat_json r =
     (let b = (if r \<noteq> [] \<and> last r = 10 then butlast r else r)
      in if 2 \<le> length b \<and> hd b = 34 \<and> last b = 34 \<and> 10 \<notin> set b then Some b else None)"

record entry_match =
  em_slot :: slot
  em_memory_id :: pystr
  em_tokens :: pystr
  em_text_json :: pystr

definition match_entry :: "pystr \<Rightarrow> entry_match option" where
  "match_entry line =
     Option.bind (eat (cps ''- ['') line) (\<lambda>t1.
     Option.bind (eat_slot SLOT_ORDER t1) (\<lambda>(s, t2).
     Option.bind (eat_id t2) (\<lambda>(i, t3).
     Option.bind (eat (cps '' tokens='') t3) (\<lambda>t4.
     Option.bind (eat_digits t4) (\<lambda>(d, t5).
     Option.bind (eat (cps '' text='') t5) (\<lambda>t6.
     Option.bind (eat_json t6) (\<lambda>j.
       Some \<lparr>em_slot = s, em_memory_id = i, em_tokens = d, em_text_json = j\<rparr>)))))))"

definition parse_entry :: "pystr \<Rightarrow> context_slot option res" where
  "parse_entry line =
     (case match_entry line of
        None \<Rightarrow> ok None
      | Some m \<Rightarrow>
          bind_res (if em_memory_id m = [45] then ok None else bind_res (uuid_of_str (map char_of (em_memory_id m))) (\<lambda>u. ok (Some u))) (\<lambda>mid.
          bind_res (int_of_digits (em_tokens m)) (\<lambda>tokens.
            ok (map_option (\<lambda>t. \<lparr>cs_slot = em_slot m, cs_memory_id = mid, cs_tokens = int tokens, cs_text = t\<rparr>)
                  (json_loads_str (em_text_json m))))))"

section \<open>JSON round trip\<close>

text \<open>What decoding makes of the encoded text: a high surrogate followed by a low one becomes the code point they
  encode, everything else is unchanged.\<close>

fun join_surrogates :: "pystr \<Rightarrow> pystr" where
  "join_surrogates [] = []"
| "join_surrogates [c] = [c]"
| "join_surrogates (h # l # t) =
     (if is_high h \<and> is_low l then join_pair h l # join_surrogates t else h # join_surrogates (l # t))"

definition wf_text :: "pystr \<Rightarrow> bool" where
  "wf_text t \<longleftrightarrow> (\<forall>c\<in>set t. c < 1114112)"

lemma hex_cp_hex_char [simp]: "0 \<le> d \<Longrightarrow> d < 16 \<Longrightarrow> hex_cp (of_char (hex_char d)) = Some (nat d)"
proof -
  assume d: "0 \<le> d" "d < 16"
  have "int (of_char (hex_char d)) < 128" using of_char_hex_char [OF d] d by (simp split: if_splits)
  then have "(of_char (hex_char d) :: nat) < 128" by linarith
  then show ?thesis using d by (simp add: hex_cp_def)
qed

lemma hex_of_4: "hex_of 4 n = [hex_char (n div 4096 mod 16), hex_char (n div 256 mod 16), hex_char (n div 16 mod 16), hex_char (n mod 16)]"
  by (simp add: numeral_eq_Suc zdiv_zmult2_eq [symmetric])

lemma nat_digits4: "n < 65536 \<Longrightarrow> ((n div 4096 mod 16 * 16 + n div 256 mod 16) * 16 + n div 16 mod 16) * 16 + n mod 16 = n" for n :: nat
proof -
  assume "n < 65536"
  have d: "n div 16 div 16 = n div 256" "n div 256 div 16 = n div 4096" by (simp_all add: div_mult2_eq [symmetric])
  have "n div 4096 mod 16 = n div 4096" using \<open>n < 65536\<close> by (simp add: less_mult_imp_div_less)
  then have "n div 4096 mod 16 * 16 + n div 256 mod 16 = n div 256" using div_mult_mod_eq [of "n div 256" 16] by (simp only: d)
  moreover have "n div 256 * 16 + n div 16 mod 16 = n div 16" using div_mult_mod_eq [of "n div 16" 16] by (simp only: d)
  ultimately show ?thesis using div_mult_mod_eq [of n 16] by (simp only:)
qed

lemma u4_digits: "w < 16 \<Longrightarrow> x < 16 \<Longrightarrow> y < 16 \<Longrightarrow> z < 16 \<Longrightarrow>
  u4 (map (\<lambda>d. of_char (hex_char (int d))) [w, x, y, z] @ r) = Some (((w * 16 + x) * 16 + y) * 16 + z, r)"
  by simp

lemma u4_escape: "n < 65536 \<Longrightarrow> u4 (cps (hex_of 4 (int n)) @ r) = Some (n, r)"
proof -
  assume n: "n < 65536"
  have "cps (hex_of 4 (int n)) = map (\<lambda>d. of_char (hex_char (int d))) [n div 4096 mod 16, n div 256 mod 16, n div 16 mod 16, n mod 16]"
    unfolding hex_of_4 cps_def by (simp only: list.map zdiv_int zmod_int of_nat_numeral)
  then show ?thesis by (simp only: u4_digits mod_less_divisor zero_less_numeral nat_digits4 [OF n])
qed

lemma u_escape_eq: "u_escape n @ r = 92 # 117 # cps (hex_of 4 (int n)) @ r"
  by (simp add: u_escape_def)

text \<open>What an encoded code point begins with, seen from the scanner after a high surrogate.\<close>

definition next_u :: "pystr \<Rightarrow> (nat \<times> pystr) option" where
  "next_u r = (if take 2 r = [92, 117] then u4 (drop 2 r) else None)"

lemma next_u_escape [simp]: "n < 65536 \<Longrightarrow> next_u (u_escape n @ r) = Some (n, r)"
  by (simp add: next_u_def u_escape_eq u4_escape)

lemma high_part_bounds: "65536 \<le> c \<Longrightarrow> c < 1114112 \<Longrightarrow> is_high (high_part c)"
proof -
  assume "65536 \<le> c" "c < 1114112"
  then have "(c - 65536) div 1024 < 1024" by (simp add: less_mult_imp_div_less)
  then show ?thesis by (simp add: is_high_def high_part_def)
qed

lemma low_part_bounds: "is_low (low_part c)"
  using mod_less_divisor [of 1024 "c - 65536"] by (simp add: is_low_def low_part_def)

lemma join_parts: "65536 \<le> c \<Longrightarrow> join_pair (high_part c) (low_part c) = c"
  using div_mult_mod_eq [of "c - 65536" 1024] by (simp add: join_pair_def high_part_def low_part_def)

lemma read_u_plain:
  assumes "n < 65536" "\<not> is_high n \<or> take 2 r \<noteq> [92, 117] \<or> (\<exists>v r'. next_u r = Some (v, r') \<and> \<not> is_low v)"
  shows "read_u (cps (hex_of 4 (int n)) @ r) = Some (n, r)"
  using assms by (auto simp: read_u_def u4_escape next_u_def split: if_splits)

lemma read_u_pair:
  assumes "h < 65536" "is_high h" "next_u r = Some (l, r')" "is_low l"
  shows "read_u (cps (hex_of 4 (int h)) @ r) = Some (join_pair h l, r')"
  using assms by (auto simp: read_u_def u4_escape next_u_def split: if_splits)

lemma simple_escape_cases:
  "simple_escape c = Some e \<Longrightarrow> unescape e = Some c \<and> e \<noteq> 117" "simple_escape c = None \<Longrightarrow> c \<noteq> 92 \<and> c \<noteq> 34"
  by (auto simp: simple_escape_def unescape_def split: if_splits)

text \<open>The first characters of encoded text: an escape only where the encoder wrote one.\<close>

lemma next_of_encoded:
  assumes "c < 1114112"
  shows "take 2 (escape_cp c @ r) \<noteq> [92, 117] \<or> (\<exists>v r'. next_u (escape_cp c @ r) = Some (v, r') \<and> (is_low v \<longrightarrow> v = c \<and> r' = r))"
proof (cases "simple_escape c")
  case (Some e)
  then show ?thesis using simple_escape_cases(1) [OF Some] by (simp add: escape_cp_def)
next
  case None
  show ?thesis
  proof (cases "32 \<le> c \<and> c \<le> 126 \<or> c < 65536")
    case True
    then show ?thesis using None simple_escape_cases(2) [OF None] by (auto simp: escape_cp_def)
  next
    case False
    then have h: "is_high (high_part c)" using high_part_bounds assms by simp
    then have "next_u (escape_cp c @ r) = Some (high_part c, u_escape (low_part c) @ r)" "\<not> is_low (high_part c)"
      using None False by (auto simp: escape_cp_def is_high_def is_low_def)
    then show ?thesis by blast
  qed
qed

lemma escape_low: "is_low l \<Longrightarrow> escape_cp l = u_escape l"
  by (auto simp: escape_cp_def simple_escape_def is_low_def)

lemma escape_high: "is_high h \<Longrightarrow> escape_cp h = u_escape h"
  by (auto simp: escape_cp_def simple_escape_def is_high_def)

lemma scan_u: "read_u s = Some (d, s') \<Longrightarrow> scanstring (92 # 117 # s) = map_option (\<lambda>(v, r). (d # v, r)) (scanstring s')"
  by (simp add: read_escape_def)

definition no_join :: "nat \<Rightarrow> pystr \<Rightarrow> bool" where
  "no_join c r \<longleftrightarrow> \<not> is_high c \<or> take 2 r \<noteq> [92, 117] \<or> (\<exists>v r'. next_u r = Some (v, r') \<and> \<not> is_low v)"

lemma scan_one:
  assumes "c < 1114112" "no_join c r"
  shows "scanstring (escape_cp c @ r) = map_option (\<lambda>(v, s). (c # v, s)) (scanstring r)"
proof (cases "simple_escape c")
  case (Some e)
  then show ?thesis using simple_escape_cases(1) [OF Some] by (simp add: escape_cp_def read_escape_def)
next
  case None
  note c = simple_escape_cases(2) [OF None]
  consider "32 \<le> c" "c \<le> 126" | "\<not> (32 \<le> c \<and> c \<le> 126)" "c < 65536" | "65536 \<le> c" by linarith
  then show ?thesis
  proof cases
    case 1
    then show ?thesis using None c by (simp add: escape_cp_def)
  next
    case 2
    then have "escape_cp c @ r = 92 # 117 # cps (hex_of 4 (int c)) @ r" using None by (auto simp: escape_cp_def u_escape_def)
    moreover have "read_u (cps (hex_of 4 (int c)) @ r) = Some (c, r)"
      using 2 assms(2) by (intro read_u_plain) (simp_all add: no_join_def)
    ultimately show ?thesis using scan_u by (simp only:)
  next
    case 3
    have h: "is_high (high_part c)" using high_part_bounds 3 assms(1) by simp
    have l: "low_part c < 65536" using low_part_bounds [of c] by (simp add: is_low_def)
    have "read_u (cps (hex_of 4 (int (high_part c))) @ u_escape (low_part c) @ r) = Some (join_pair (high_part c) (low_part c), r)"
      using h l by (intro read_u_pair) (auto simp: is_high_def low_part_bounds)
    then show ?thesis using 3 None scan_u by (simp add: escape_cp_def u_escape_eq join_parts)
  qed
qed

lemma scan_pair:
  assumes "is_high h" "is_low l"
  shows "scanstring (escape_cp h @ escape_cp l @ r) = map_option (\<lambda>(v, s). (join_pair h l # v, s)) (scanstring r)"
proof -
  have "read_u (cps (hex_of 4 (int h)) @ u_escape l @ r) = Some (join_pair h l, r)"
    using assms by (intro read_u_pair) (auto simp: is_high_def is_low_def)
  then show ?thesis using scan_u by (simp add: escape_high [OF assms(1)] escape_low [OF assms(2)] u_escape_eq)
qed

lemma no_join_escape: "c < 1114112 \<Longrightarrow> \<not> (is_high h \<and> is_low c) \<Longrightarrow> no_join h (escape_cp c @ r)"
  using next_of_encoded [of c r] unfolding no_join_def by blast

lemma scan_encoded: "wf_text t \<Longrightarrow> scanstring (concat (map escape_cp t) @ 34 # r) = Some (join_surrogates t, r)"
proof (induction t rule: join_surrogates.induct)
  case 1
  then show ?case by simp
next
  case (2 c)
  then show ?case using scan_one [of c "34 # r"] by (simp add: wf_text_def no_join_def)
next
  case (3 h l t)
  show ?case
  proof (cases "is_high h \<and> is_low l")
    case True
    then show ?thesis using 3 scan_pair [of h l] by (simp add: wf_text_def)
  next
    case False
    have wf: "h < 1114112" "l < 1114112" "wf_text (l # t)" using "3.prems" by (auto simp: wf_text_def)
    have "no_join h (escape_cp l @ concat (map escape_cp t) @ 34 # r)" using no_join_escape [OF wf(2)] False by blast
    then show ?thesis using scan_one [OF wf(1)] "3.IH"(2) [OF _ wf(3)] False by auto
  qed
qed

lemma json_roundtrip: "wf_text t \<Longrightarrow> json_loads_str (json_dumps t) = Some (join_surrogates t)"
  using scan_encoded [of t "[]"] by (simp add: json_loads_str_def json_dumps_def)

text \<open>Decoding is the identity exactly on text with no adjacent surrogate pair.\<close>

definition no_surrogate_pair :: "pystr \<Rightarrow> bool" where
  "no_surrogate_pair t \<longleftrightarrow> (\<forall>i. Suc i < length t \<longrightarrow> \<not> (is_high (t ! i) \<and> is_low (t ! Suc i)))"

lemma join_surrogates_length: "length (join_surrogates t) \<le> length t"
  by (induction t rule: join_surrogates.induct) auto

lemma no_surrogate_pair_Cons: "no_surrogate_pair (h # l # t) \<longleftrightarrow> \<not> (is_high h \<and> is_low l) \<and> no_surrogate_pair (l # t)"
proof
  assume "no_surrogate_pair (h # l # t)"
  then show "\<not> (is_high h \<and> is_low l) \<and> no_surrogate_pair (l # t)" unfolding no_surrogate_pair_def by fastforce
next
  assume "\<not> (is_high h \<and> is_low l) \<and> no_surrogate_pair (l # t)"
  then show "no_surrogate_pair (h # l # t)" unfolding no_surrogate_pair_def
    by (auto simp: nth_Cons split: nat.splits)
qed

lemma join_surrogates_id: "join_surrogates t = t \<longleftrightarrow> no_surrogate_pair t"
proof (induction t rule: join_surrogates.induct)
  case (3 h l t)
  show ?case
  proof (cases "is_high h \<and> is_low l")
    case True
    have "length (join_surrogates (h # l # t)) < length (h # l # t)" using True join_surrogates_length [of t] by simp
    then have "join_surrogates (h # l # t) \<noteq> h # l # t" by (metis less_irrefl)
    then show ?thesis using True by (simp add: no_surrogate_pair_Cons)
  next
    case False
    then show ?thesis using "3.IH"(2) by (auto simp: no_surrogate_pair_Cons)
  qed
qed (simp_all add: no_surrogate_pair_def)

section \<open>Entry round trip\<close>

text \<open>Every character of an encoded line is printable ASCII.\<close>

definition printable :: "pystr \<Rightarrow> bool" where
  "printable t \<longleftrightarrow> (\<forall>c\<in>set t. 32 \<le> c \<and> c \<le> 126)"

lemma printable_append [simp]: "printable (s @ t) \<longleftrightarrow> printable s \<and> printable t"
  by (auto simp: printable_def)

lemma printable_Cons [simp]: "printable (c # t) \<longleftrightarrow> 32 \<le> c \<and> c \<le> 126 \<and> printable t" "printable []"
  by (auto simp: printable_def)

lemma of_char_hex_bounds: "0 \<le> d \<Longrightarrow> d < 16 \<Longrightarrow> lower_hex (of_char (hex_char d))"
proof -
  assume d: "0 \<le> d" "d < 16"
  have *: "int (of_char (hex_char d)) = (if d < 10 then 48 + d else 87 + d)" by (rule of_char_hex_char [OF d])
  show ?thesis
  proof (cases "d < 10")
    case True
    then have "48 \<le> int (of_char (hex_char d))" "int (of_char (hex_char d)) \<le> 57" using * d by simp_all
    then show ?thesis unfolding lower_hex_def by linarith
  next
    case False
    then have "97 \<le> int (of_char (hex_char d))" "int (of_char (hex_char d)) \<le> 102" using * d by simp_all
    then show ?thesis unfolding lower_hex_def by linarith
  qed
qed

lemma cps_hex_of: "c \<in> set (cps (hex_of k n)) \<Longrightarrow> lower_hex c"
  using set_hex_of of_char_hex_bounds by (auto simp: cps_def)

lemma lower_hex_printable: "lower_hex c \<Longrightarrow> 32 \<le> c \<and> c \<le> 126"
  by (auto simp: lower_hex_def)

lemma printable_u_escape [simp]: "printable (u_escape n)"
  using cps_hex_of lower_hex_printable by (auto simp: u_escape_def printable_def)

lemma printable_escape [simp]: "printable (escape_cp c)"
proof (cases "simple_escape c")
  case (Some e)
  then have "32 \<le> e \<and> e \<le> 126" by (auto simp: simple_escape_def split: if_splits)
  then show ?thesis using Some by (simp add: escape_cp_def)
qed (simp add: escape_cp_def)

lemma printable_json [simp]: "printable (json_dumps t)"
proof -
  have "printable (concat (map escape_cp t))" by (induction t) simp_all
  then show ?thesis by (simp add: json_dumps_def)
qed

lemma eat_append [simp]: "eat p (p @ t) = Some t"
  by (simp add: eat_def)

lemma cps_append: "cps (s @ t) = cps s @ cps t"
  by (simp add: cps_def)

lemma eat_slot_value: "eat_slot SLOT_ORDER (cps (slot_value s) @ cps ''] id='' @ t) = Some (s, t)"
  by (cases s) (simp_all add: SLOT_ORDER_def slot_value_def cps_def eat_def)

text \<open>The digits of a number.\<close>

declare dec_digits.simps [simp del]

lemma dec_digits_set: "c \<in> set (dec_digits n) \<Longrightarrow> 48 \<le> c \<and> c \<le> 57"
proof (induction n rule: dec_digits.induct)
  case (1 n)
  show ?case
  proof (cases "n < 10")
    case True
    then show ?thesis using "1.prems" by (simp add: dec_digits.simps [of n])
  next
    case False
    then show ?thesis using "1.prems" "1.IH" mod_less_divisor [of 10 n] by (auto simp: dec_digits.simps [of n])
  qed
qed

lemma dec_digits_nonempty [simp]: "dec_digits n \<noteq> []"
  by (subst dec_digits.simps) simp

lemma decimal_value_ascii: "48 \<le> c \<Longrightarrow> c \<le> 57 \<Longrightarrow> decimal_value c = Some (c - 48)"
  by (simp add: decimal_value_def DECIMAL_ZEROS_def)

lemma space_not_decimal: "\<not> is_decimal 32"
  by (simp add: is_decimal_def decimal_value_def DECIMAL_ZEROS_def)

lemma dec_digits_value: "foldl (\<lambda>a c. a * 10 + the (decimal_value c)) 0 (dec_digits n) = n"
proof (induction n rule: dec_digits.induct)
  case (1 n)
  show ?case
  proof (cases "n < 10")
    case True
    then show ?thesis by (simp add: dec_digits.simps [of n] decimal_value_ascii)
  next
    case False
    have "decimal_value (48 + n mod 10) = Some (n mod 10)" using decimal_value_ascii [of "48 + n mod 10"] mod_less_divisor [of 10 n] by simp
    then show ?thesis using "1.IH" False div_mult_mod_eq [of n 10] by (simp add: dec_digits.simps [of n] mult.commute)
  qed
qed

lemma eat_digits_dec: "eat_digits (dec_digits n @ 32 # t) = Some (dec_digits n, 32 # t)"
proof -
  have "\<forall>c\<in>set (dec_digits n). is_decimal c" using dec_digits_set decimal_value_ascii by (auto simp: is_decimal_def)
  then have "takeWhile is_decimal (dec_digits n @ 32 # t) = dec_digits n" using space_not_decimal by (simp add: takeWhile_append)
  then show ?thesis by (simp add: eat_digits_def)
qed

text \<open>The identifier.\<close>

definition valid_id :: "uuid option \<Rightarrow> bool" where
  "valid_id mid \<longleftrightarrow> (case mid of None \<Rightarrow> True | Some u \<Rightarrow> 0 \<le> u \<and> u < 2 ^ 128)"

lemma cps_uuid_str:
  "cps (uuid_str u) = (let h = cps (hex_of 32 u)
     in take 8 h @ [45] @ take 4 (drop 8 h) @ [45] @ take 4 (drop 12 h) @ [45] @ take 4 (drop 16 h) @ [45] @ drop 20 h)"
  by (simp add: uuid_str_def Let_def cps_def take_map drop_map)

lemma hex_nth: "j < 32 \<Longrightarrow> lower_hex (cps (hex_of 32 u) ! j)"
  by (rule cps_hex_of [of _ 32 u]) (simp add: cps_def)

lemma length_cps_uuid [simp]: "length (cps (uuid_str u)) = 36" "length (uuid_str u) = 36"
  by (simp_all add: uuid_str_def Let_def cps_def)

lemma length_cps_hex: "length (cps (hex_of k n)) = k"
  by (simp add: cps_def)

lemma uuid_shape_str: "uuid_shape (cps (uuid_str u))"
proof -
  have "[0..<36] = [0, 1, 2, 3, 4, 5, 6, 7, 8, 9, 10, 11, 12, 13, 14, 15, 16, 17, 18, 19, 20, 21, 22, 23, 24, 25, 26, 27, 28, 29, 30, 31, 32, 33, 34, 35]"
    by (simp add: upt_rec)
  moreover have "length (cps (uuid_str u)) = 36" by simp
  ultimately show ?thesis unfolding uuid_shape_def cps_uuid_str Let_def
    by (simp add: nth_append length_cps_hex hex_nth)
qed

lemma printable_uuid [simp]: "printable (cps (uuid_str u))"
proof -
  have "printable (cps (hex_of 32 u))" using cps_hex_of lower_hex_printable unfolding printable_def by blast
  then have "printable (take n (cps (hex_of 32 u)))" "printable (drop n (cps (hex_of 32 u)))" "printable (take m (drop n (cps (hex_of 32 u))))" for n m
    by (auto simp: printable_def dest!: in_set_takeD in_set_dropD)
  then show ?thesis by (simp add: cps_uuid_str Let_def)
qed

definition id_token :: "uuid option \<Rightarrow> pystr" where
  "id_token mid = cps (case mid of None \<Rightarrow> ''-'' | Some u \<Rightarrow> uuid_str u)"

lemma eat_id_token: "eat_id (id_token mid @ t) = Some (id_token mid, t)"
proof (cases mid)
  case None
  have "\<not> uuid_shape (take 36 (45 # t))"
  proof
    assume "uuid_shape (take 36 (45 # t))"
    then have "lower_hex (take 36 (45 # t) ! 0)" by (auto simp: uuid_shape_def list_all_iff dest: bspec [of _ _ 0])
    then show False by (simp add: lower_hex_def)
  qed
  then show ?thesis using None by (simp add: eat_id_def id_token_def cps_def eat_def)
next
  case (Some u)
  then show ?thesis by (simp add: eat_id_def id_token_def uuid_shape_str)
qed

lemma char_of_cps [simp]: "map char_of (cps s) = s"
  by (simp add: cps_def comp_def)

lemma parse_id_token: "valid_id mid \<Longrightarrow>
  (if id_token mid = [45] then ok None else bind_res (uuid_of_str (map char_of (id_token mid))) (\<lambda>u. ok (Some u))) = ok mid"
proof (cases mid)
  case (Some u)
  assume v: "valid_id mid"
  have "length (cps (uuid_str u)) \<noteq> length [45::nat]" by simp
  then have "cps (uuid_str u) \<noteq> [45]" by metis
  then show ?thesis using Some v by (simp add: id_token_def valid_id_def)
qed (simp add: id_token_def cps_def)

lemma eat_json_dumps: "eat_json (json_dumps t) = Some (json_dumps t)"
proof -
  have p: "printable (json_dumps t)" by simp
  have l: "json_dumps t \<noteq> []" "last (json_dumps t) = 34" "2 \<le> length (json_dumps t)" "hd (json_dumps t) = 34"
    by (simp_all add: json_dumps_def)
  have "10 \<notin> set (json_dumps t)" using p by (auto simp: printable_def)
  then show ?thesis using l by (simp add: eat_json_def Let_def)
qed

definition entry_line :: "slot \<Rightarrow> uuid option \<Rightarrow> int \<Rightarrow> pystr \<Rightarrow> pystr" where
  "entry_line s mid tokens t = cps ''- ['' @ cps (slot_value s) @ cps ''] id='' @ id_token mid @ cps '' tokens='' @
     dec_digits (nat tokens) @ cps '' text='' @ json_dumps t"

definition small_int :: "int \<Rightarrow> bool" where
  "small_int n \<longleftrightarrow> 0 \<le> n \<and> length (dec_digits (nat n)) \<le> INT_MAX_STR_DIGITS"

lemma render_entry_line: "render_entry s mid tokens t = (if small_int tokens then ok (entry_line s mid tokens t) else raise ValueError)"
  by (auto simp: render_entry_def small_int_def str_int_def Let_def entry_line_def id_token_def)

lemma match_entry_line:
  "match_entry (entry_line s mid tokens t) =
     Some \<lparr>em_slot = s, em_memory_id = id_token mid, em_tokens = dec_digits (nat tokens), em_text_json = json_dumps t\<rparr>"
proof -
  have sp: "cps '' text='' = 32 # cps ''text=''" by (simp add: cps_def)
  have "eat_digits (dec_digits (nat tokens) @ cps '' text='' @ json_dumps t) = Some (dec_digits (nat tokens), cps '' text='' @ json_dumps t)"
    using eat_digits_dec [of "nat tokens" "cps ''text='' @ json_dumps t"] by (simp add: sp)
  then show ?thesis unfolding match_entry_def entry_line_def
    by (simp add: eat_slot_value eat_id_token eat_json_dumps del: append_assoc add: append_assoc [symmetric, THEN sym])
qed

lemma parse_entry_line:
  assumes "small_int tokens" "valid_id mid" "wf_text t"
  shows "parse_entry (entry_line s mid tokens t) =
    ok (Some \<lparr>cs_slot = s, cs_memory_id = mid, cs_tokens = tokens, cs_text = join_surrogates t\<rparr>)"
  using assms parse_id_token [OF assms(2)]
  by (cases "id_token mid = [45]")
     (simp_all add: parse_entry_def match_entry_line int_of_digits_def small_int_def dec_digits_value json_roundtrip)

lemma printable_dec [simp]: "printable (dec_digits n)"
  using dec_digits_set by (force simp: printable_def)

lemma printable_entry_line [simp]: "printable (entry_line s mid tokens t)"
proof -
  have "printable (cps (slot_value s))" by (cases s) (simp_all add: slot_value_def cps_def)
  moreover have "printable (id_token mid)" by (cases mid) (simp_all add: id_token_def, simp add: cps_def)
  ultimately show ?thesis by (simp add: entry_line_def) (simp add: cps_def)
qed

text \<open>The place of a slot in the canonical order.\<close>

definition slot_rank :: "slot \<Rightarrow> nat" where
  "slot_rank s = (case s of STATIC_PREFIX \<Rightarrow> 0 | FACT \<Rightarrow> 1 | EXEMPLAR \<Rightarrow> 2 | PITFALL \<Rightarrow> 3 | CANDIDATE_NOTE \<Rightarrow> 4 | JIT_LESSON \<Rightarrow> 5)"

lemma slot_order_sorted: "sorted_wrt (<) (map slot_rank SLOT_ORDER)"
  by (simp add: SLOT_ORDER_def slot_rank_def)

lemma slot_in_order [simp]: "s \<in> set SLOT_ORDER"
  by (cases s) (simp_all add: SLOT_ORDER_def)

lemma slot_rank_inj: "slot_rank s = slot_rank t \<longleftrightarrow> s = t"
  by (cases s; cases t) (simp_all add: slot_rank_def)

section \<open>Properties\<close>

text \<open>C21. An entry line carries its fields and nothing else: for an identifier in range, a token count the
  interpreter prints and any text, \<open>render_entry\<close> returns one line of printable ASCII (so no newline, no
  unescaped quote, no bidirectional control), and \<open>parse_entry\<close> reads the same slot, identifier, token count and
  text back; the text is unchanged exactly when it has no surrogate pair written as two code points.\<close>

theorem entry_roundtrip:
  assumes "valid_id mid" "small_int tokens" "wf_text t"
  shows "\<exists>line u. render_entry s mid tokens t = ok line \<and> (\<forall>c\<in>set line. 32 \<le> c \<and> c \<le> 126) \<and>
     parse_entry line = ok (Some \<lparr>cs_slot = s, cs_memory_id = mid, cs_tokens = tokens, cs_text = u\<rparr>) \<and>
     (u = t \<longleftrightarrow> no_surrogate_pair t)"
proof -
  have "\<forall>c\<in>set (entry_line s mid tokens t). 32 \<le> c \<and> c \<le> 126"
    using printable_entry_line [of s mid tokens t] by (simp add: printable_def)
  then show ?thesis using parse_entry_line [OF assms(2,1,3)] assms(2) by (simp add: render_entry_line join_surrogates_id)
qed

theorem entry_roundtrip_witness:
  "\<exists>line. render_entry FACT (Some 42) 17 [104, 10, 34, 8238, 128512] = ok line \<and> 10 \<notin> set line \<and>
     parse_entry line = ok (Some \<lparr>cs_slot = FACT, cs_memory_id = Some 42, cs_tokens = 17, cs_text = [104, 10, 34, 8238, 128512]\<rparr>)"
proof -
  let ?t = "[104, 10, 34, 8238, 128512]"
  have "valid_id (Some 42)" "small_int 17" "wf_text ?t"
    by (simp_all add: valid_id_def small_int_def wf_text_def INT_MAX_STR_DIGITS_def dec_digits.simps [of 17] dec_digits.simps [of "Suc 0"])
  moreover have "no_surrogate_pair ?t" by (simp add: join_surrogates_id [symmetric] is_high_def)
  ultimately show ?thesis using entry_roundtrip [of "Some 42" 17 ?t FACT] by fastforce
qed

end
