(* ===== verification/Hashing.thy ===== *)
theory Hashing
  imports Templates
begin

text \<open>
  The hashing the code takes from the standard library: \<open>str.encode("utf-8")\<close> and \<open>hashlib.sha256\<close>
  (FIPS 180-4), with \<open>sha256_hex\<close> of \<open>src/src/tracebed/domain/canonical.py\<close>. A message is a list of bytes.
\<close>

unbundle bit_operations_syntax

section \<open>UTF-8\<close>

text \<open>Encoding refuses a surrogate code point with \<open>UnicodeEncodeError\<close>, a \<open>ValueError\<close>.\<close>

definition byte_of :: "nat \<Rightarrow> byte" where
  "byte_of n = word_of_nat n"

definition utf8_cp :: "nat \<Rightarrow> byte list res" where
  "utf8_cp c =
     (if c < 128 then ok [byte_of c]
      else if c < 2048 then ok [byte_of (192 + c div 64), byte_of (128 + c mod 64)]
      else if 55296 \<le> c \<and> c \<le> 57343 then raise ValueError
      else if c < 65536 then ok [byte_of (224 + c div 4096), byte_of (128 + c div 64 mod 64), byte_of (128 + c mod 64)]
      else ok [byte_of (240 + c div 262144), byte_of (128 + c div 4096 mod 64), byte_of (128 + c div 64 mod 64), byte_of (128 + c mod 64)])"

definition utf8_encode :: "pystr \<Rightarrow> byte list res" where
  "utf8_encode t = bind_res (map_res utf8_cp t) (\<lambda>bs. ok (concat bs))"

section \<open>SHA-256\<close>

type_synonym w32 = "32 word"

text \<open>The constants are the first 32 bits of the fractional parts of the cube roots of the first 64 primes, and of the
  square roots of the first 8; \<open>int_root k n\<close> is the integer part of the \<open>k\<close>-th root, found bit by bit.\<close>

definition primes_below :: "nat \<Rightarrow> nat list" where
  "primes_below bound = filter (\<lambda>n. list_all (\<lambda>d. n mod d \<noteq> 0) [2..<n]) [2..<bound]"

definition int_root :: "nat \<Rightarrow> nat \<Rightarrow> nat" where
  "int_root k n = foldl (\<lambda>r i. if (r + 2 ^ i) ^ k \<le> n then r + 2 ^ i else r) 0 (rev [0..<40])"

definition SHA256_K :: "w32 list" where
  "SHA256_K = map (\<lambda>p. word_of_nat (int_root 3 (p * 2 ^ 96))) (primes_below 312)"

definition SHA256_H0 :: "w32 list" where
  "SHA256_H0 = map (\<lambda>p. word_of_nat (int_root 2 (p * 2 ^ 64))) [2, 3, 5, 7, 11, 13, 17, 19]"

definition be_bytes :: "nat \<Rightarrow> nat \<Rightarrow> byte list" where
  "be_bytes k n = map (\<lambda>i. byte_of (n div 256 ^ (k - 1 - i) mod 256)) [0..<k]"

definition sha256_pad :: "byte list \<Rightarrow> byte list" where
  "sha256_pad m = m @ [128] @ replicate ((119 - length m mod 64) mod 64) 0 @ be_bytes 8 (8 * length m)"

function chunks :: "nat \<Rightarrow> 'a list \<Rightarrow> 'a list list" where
  "chunks n xs = (if n = 0 \<or> xs = [] then [] else take n xs # chunks n (drop n xs))"
  by pat_completeness auto
termination by (relation "measure (length \<circ> snd)") auto

declare chunks.simps [simp del]

definition word_of_be :: "byte list \<Rightarrow> w32" where
  "word_of_be bs = word_of_int (from_bytes_big bs)"

definition small_sigma0 :: "w32 \<Rightarrow> w32" where
  "small_sigma0 x = word_rotr 7 x XOR word_rotr 18 x XOR drop_bit 3 x"

definition small_sigma1 :: "w32 \<Rightarrow> w32" where
  "small_sigma1 x = word_rotr 17 x XOR word_rotr 19 x XOR drop_bit 10 x"

definition big_sigma0 :: "w32 \<Rightarrow> w32" where
  "big_sigma0 x = word_rotr 2 x XOR word_rotr 13 x XOR word_rotr 22 x"

definition big_sigma1 :: "w32 \<Rightarrow> w32" where
  "big_sigma1 x = word_rotr 6 x XOR word_rotr 11 x XOR word_rotr 25 x"

definition sha256_schedule :: "byte list \<Rightarrow> w32 list" where
  "sha256_schedule block =
     foldl (\<lambda>w t. w @ [small_sigma1 (w ! (t - 2)) + w ! (t - 7) + small_sigma0 (w ! (t - 15)) + w ! (t - 16)])
       (map word_of_be (chunks 4 block)) [16..<64]"

type_synonym sha_state = "w32 \<times> w32 \<times> w32 \<times> w32 \<times> w32 \<times> w32 \<times> w32 \<times> w32"

fun sha256_round :: "sha_state \<Rightarrow> w32 \<times> w32 \<Rightarrow> sha_state" where
  "sha256_round (a, b, c, d, e, f, g, h) (k, w) =
     (let t1 = h + big_sigma1 e + ((e AND f) XOR (NOT e AND g)) + k + w;
          t2 = big_sigma0 a + ((a AND b) XOR (a AND c) XOR (b AND c))
      in (t1 + t2, a, b, c, d + t1, e, f, g))"

definition state_of :: "w32 list \<Rightarrow> sha_state" where
  "state_of hs = (hs ! 0, hs ! 1, hs ! 2, hs ! 3, hs ! 4, hs ! 5, hs ! 6, hs ! 7)"

fun state_list :: "sha_state \<Rightarrow> w32 list" where
  "state_list (a, b, c, d, e, f, g, h) = [a, b, c, d, e, f, g, h]"

definition sha256_compress :: "w32 list \<Rightarrow> byte list \<Rightarrow> w32 list" where
  "sha256_compress hs block =
     map2 (+) hs (state_list (foldl sha256_round (state_of hs) (zip SHA256_K (sha256_schedule block))))"

definition sha256 :: "byte list \<Rightarrow> byte list" where
  "sha256 m = concat (map (\<lambda>w. be_bytes 4 (unat w)) (foldl sha256_compress SHA256_H0 (chunks 64 (sha256_pad m))))"

definition sha256_hex :: "byte list \<Rightarrow> string" where
  "sha256_hex m = concat (map (\<lambda>b. hex_of 2 (uint b)) (sha256 m))"

section \<open>Lengths\<close>

lemma length_be_bytes [simp]: "length (be_bytes k n) = k"
  by (simp add: be_bytes_def)

lemma length_compress: "length hs = 8 \<Longrightarrow> length (sha256_compress hs block) = 8"
proof -
  assume "length hs = 8"
  moreover have "length (state_list s) = 8" for s by (cases s rule: state_list.cases) simp
  ultimately show ?thesis by (simp add: sha256_compress_def)
qed

lemma length_sha256 [simp]: "length (sha256 m) = 32"
proof -
  have "length (foldl sha256_compress hs bs) = 8" if "length hs = 8" for hs bs
    using that by (induction bs arbitrary: hs) (simp_all add: length_compress)
  then have l: "length (foldl sha256_compress SHA256_H0 bs) = 8" for bs by (simp add: SHA256_H0_def)
  have "length (concat (map (\<lambda>w. be_bytes 4 (unat w)) ws)) = 4 * length ws" for ws :: "w32 list"
    by (induction ws) simp_all
  then show ?thesis by (simp add: sha256_def l)
qed

lemma length_sha256_hex [simp]: "length (sha256_hex m) = 64"
proof -
  have "length (concat (map (\<lambda>b. hex_of 2 (uint b)) bs)) = 2 * length bs" for bs :: "byte list"
    by (induction bs) simp_all
  then show ?thesis by (simp add: sha256_hex_def)
qed

end
