(* ===== verification/Hotpath_Budget.thy ===== *)
theory Hotpath_Budget
  imports Hashing Config
begin

text \<open>
  The request deadline, \<open>src/src/tracebed/hotpath/budget.py\<close>, and the holdout draw,
  \<open>src/src/tracebed/hotpath/holdout.py\<close>. A reading of the monotonic clock is an argument; a listener is a
  value of a type variable, and the calls of \<open>narrow_total_budget_ms\<close> are the list of listeners it returns.
  The dict of listeners is the association list of its entries in insertion order.
\<close>

section \<open>Deadline\<close>

record 'l deadline =
  dl_total_budget_ms :: int
  dl_embed_timeout_ms :: int
  dl_started_at_ms :: real
  dl_listeners :: "(int \<times> 'l) list"
  dl_next_listener_id :: int

definition deadline_init :: "real \<Rightarrow> int \<Rightarrow> int \<Rightarrow> real option \<Rightarrow> 'l deadline res" where
  "deadline_init now total_budget_ms embed_timeout_ms started_at_ms =
     (if total_budget_ms \<le> 0 then raise ValueError
      else if embed_timeout_ms \<le> 0 then raise ValueError
      else ok \<lparr>dl_total_budget_ms = total_budget_ms, dl_embed_timeout_ms = embed_timeout_ms,
                dl_started_at_ms = (case started_at_ms of None \<Rightarrow> now | Some s \<Rightarrow> s),
                dl_listeners = [], dl_next_listener_id = 0\<rparr>)"

definition narrow_total_budget_ms :: "int \<Rightarrow> 'l deadline \<Rightarrow> ('l list \<times> 'l deadline) res" where
  "narrow_total_budget_ms total_budget_ms d =
     (if total_budget_ms \<le> 0 then raise ValueError
      else if total_budget_ms \<ge> dl_total_budget_ms d then ok ([], d)
      else ok (map snd (dl_listeners d), d\<lparr>dl_total_budget_ms := total_budget_ms\<rparr>))"

definition add_narrow_listener :: "'l \<Rightarrow> 'l deadline \<Rightarrow> int \<times> 'l deadline" where
  "add_narrow_listener l d =
     (let token = dl_next_listener_id d
      in (token, d\<lparr>dl_next_listener_id := token + 1, dl_listeners := dl_listeners d @ [(token, l)]\<rparr>))"

definition remove_narrow_listener :: "int \<Rightarrow> 'l deadline \<Rightarrow> 'l deadline" where
  "remove_narrow_listener token d = d\<lparr>dl_listeners := filter (\<lambda>e. fst e \<noteq> token) (dl_listeners d)\<rparr>"

definition elapsed_ms :: "real \<Rightarrow> 'l deadline \<Rightarrow> real" where
  "elapsed_ms now d = now - dl_started_at_ms d"

definition remaining_ms :: "real \<Rightarrow> 'l deadline \<Rightarrow> real" where
  "remaining_ms now d = real_of_int (dl_total_budget_ms d) - elapsed_ms now d"

definition expires_at_ms :: "'l deadline \<Rightarrow> real" where
  "expires_at_ms d = dl_started_at_ms d + real_of_int (dl_total_budget_ms d)"

definition total_exceeded :: "real \<Rightarrow> 'l deadline \<Rightarrow> bool" where
  "total_exceeded now d \<longleftrightarrow> remaining_ms now d \<le> 0"

definition embed_sub_budget_ms :: "real \<Rightarrow> 'l deadline \<Rightarrow> real" where
  "embed_sub_budget_ms now d = max 0 (min (real_of_int (dl_embed_timeout_ms d)) (remaining_ms now d))"

section \<open>Holdout\<close>

fun int_bit_length :: "nat \<Rightarrow> nat" where
  "int_bit_length n = (if n = 0 then 0 else Suc (int_bit_length (n div 2)))"

declare int_bit_length.simps [simp del]

text \<open>The integer nearest to \<open>n\<close> with at most 53 significant bits, ties to even: \<open>n / 2 ** 64\<close> in binary floating
  point is this integer scaled by a power of two.\<close>

definition round53 :: "nat \<Rightarrow> nat" where
  "round53 n =
     (let b = int_bit_length n
      in if b \<le> 53 then n
         else let s = b - 53; q = n div 2 ^ s; r = n mod 2 ^ s; half = 2 ^ (s - 1)
              in (if r > half \<or> (r = half \<and> odd q) then q + 1 else q) * 2 ^ s)"

definition draw_of :: "byte list \<Rightarrow> real" where
  "draw_of digest = real (round53 (nat (from_bytes_big (take 8 digest)))) / 2 ^ 64"

definition assign_arm :: "pystr \<Rightarrow> agent_type_id \<Rightarrow> pystr \<Rightarrow> pyfloat \<Rightarrow> arm res" where
  "assign_arm session_key agent_type salt holdout_pct =
     (case holdout_pct of
        Fin pct \<Rightarrow>
          if \<not> (0 \<le> pct \<and> pct \<le> 100) then raise ValueError
          else if salt = [] then raise ValueError
          else if session_key = [] then raise ValueError
          else bind_res (utf8_encode (salt @ [31] @ cps (uuid_str (agent_type_value agent_type)) @ [31] @ session_key)) (\<lambda>bs.
                 ok (if draw_of (sha256 bs) < pct / 100 then HOLDOUT else MEMORY_ON))
      | _ \<Rightarrow> raise ValueError)"

section \<open>Deadline lemmas\<close>

definition deadline_inv :: "'l deadline \<Rightarrow> bool" where
  "deadline_inv d \<longleftrightarrow> 0 < dl_total_budget_ms d \<and> 0 < dl_embed_timeout_ms d \<and> 0 \<le> dl_next_listener_id d \<and> distinct (map fst (dl_listeners d)) \<and>
     (\<forall>t\<in>set (map fst (dl_listeners d)). 0 \<le> t \<and> t < dl_next_listener_id d)"

datatype 'l deadline_op = Narrow int | Listen 'l | Unlisten int

fun deadline_step :: "'l deadline_op \<Rightarrow> 'l deadline \<Rightarrow> 'l deadline" where
  "deadline_step (Narrow n) d = (case narrow_total_budget_ms n d of Inl _ \<Rightarrow> d | Inr (_, d') \<Rightarrow> d')"
| "deadline_step (Listen l) d = snd (add_narrow_listener l d)"
| "deadline_step (Unlisten t) d = remove_narrow_listener t d"

lemma init_inv: "deadline_init now tot emb started = ok d \<Longrightarrow> deadline_inv d"
  by (auto simp: deadline_init_def deadline_inv_def split: if_splits)

lemma step_inv:
  assumes "deadline_inv d"
  shows "deadline_inv (deadline_step op d)"
proof (cases op)
  case (Narrow n)
  then show ?thesis using assms by (auto simp: deadline_inv_def narrow_total_budget_ms_def)
next
  case (Listen l)
  then show ?thesis using assms by (fastforce simp: deadline_inv_def add_narrow_listener_def Let_def)
next
  case (Unlisten t)
  then show ?thesis using assms by (fastforce simp: deadline_inv_def remove_narrow_listener_def distinct_map_filter)
qed

lemma step_narrows: "dl_total_budget_ms (deadline_step op d) \<le> dl_total_budget_ms d \<and> dl_started_at_ms (deadline_step op d) = dl_started_at_ms d \<and>
  dl_embed_timeout_ms (deadline_step op d) = dl_embed_timeout_ms d"
  by (cases op) (auto simp: narrow_total_budget_ms_def add_narrow_listener_def remove_narrow_listener_def Let_def)

lemma run_narrows:
  "deadline_inv d \<Longrightarrow> deadline_inv (fold deadline_step ops d) \<and> dl_total_budget_ms (fold deadline_step ops d) \<le> dl_total_budget_ms d \<and>
   dl_started_at_ms (fold deadline_step ops d) = dl_started_at_ms d \<and> dl_embed_timeout_ms (fold deadline_step ops d) = dl_embed_timeout_ms d"
proof (induction ops arbitrary: d)
  case (Cons op ops)
  from Cons.IH [OF step_inv [OF Cons.prems, of op]] show ?case using step_narrows [of op d] by auto
qed simp

section \<open>Rounding of the draw\<close>

lemma int_bit_length_bounds: "0 < n \<Longrightarrow> 2 ^ (int_bit_length n - 1) \<le> n \<and> n < 2 ^ int_bit_length n"
proof (induction n rule: int_bit_length.induct)
  case (1 n)
  show ?case
  proof (cases "n div 2 = 0")
    case True
    then have "n = 1" using 1(2) by simp
    then show ?thesis by (simp add: int_bit_length.simps [of "Suc 0"] int_bit_length.simps [of 0])
  next
    case False
    let ?b = "int_bit_length (n div 2)"
    have ih: "2 ^ (?b - 1) \<le> n div 2" "n div 2 < 2 ^ ?b" using 1 False by auto
    have "0 < ?b" using False by (simp add: int_bit_length.simps [of "n div 2"])
    then have "2 ^ ?b = 2 * (2 ^ (?b - 1) :: nat)" by (simp flip: power_Suc)
    then have "2 ^ ?b \<le> n" using ih(1) by simp
    moreover have "n < 2 * 2 ^ ?b" using ih(2) by linarith
    ultimately show ?thesis using 1(2) by (simp add: int_bit_length.simps [of n])
  qed
qed

lemma int_bit_length_le: "n < 2 ^ k \<Longrightarrow> int_bit_length n \<le> k"
proof (cases "n = 0")
  case False
  assume "n < 2 ^ k"
  then have "(2::nat) ^ (int_bit_length n - 1) < 2 ^ k" using int_bit_length_bounds [of n] False by linarith
  then show ?thesis by (simp add: power_strict_increasing_iff)
qed (simp add: int_bit_length.simps)

lemma round53_bound: "n < 2 ^ 64 \<Longrightarrow> round53 n \<le> 2 ^ 64"
proof (cases "int_bit_length n \<le> 53")
  case False
  assume n: "n < 2 ^ 64"
  let ?s = "int_bit_length n - 53"
  have b: "int_bit_length n \<le> 64" using int_bit_length_le [OF n] .
  have "n < 2 ^ (53 + ?s)" using int_bit_length_bounds [of n] False by (cases "n = 0") (auto simp: int_bit_length.simps [of 0])
  then have "n div 2 ^ ?s < 2 ^ 53" by (simp add: power_add less_mult_imp_div_less)
  then have "round53 n \<le> 2 ^ 53 * 2 ^ ?s" using False by (auto simp: round53_def Let_def)
  also have "\<dots> = 2 ^ (53 + ?s)" by (rule power_add [symmetric])
  also have "\<dots> = 2 ^ int_bit_length n" using False by (intro arg_cong [of _ _ "(^) 2"]) simp
  also have "\<dots> \<le> 2 ^ 64" using b by (rule power_increasing) simp
  finally show ?thesis .
qed (simp add: round53_def)

text \<open>The draw reaches 1 exactly at the top 1024 of the 64-bit values.\<close>

lemma round53_top: "n < 2 ^ 64 \<Longrightarrow> round53 n = 2 ^ 64 \<longleftrightarrow> 2 ^ 64 - 2 ^ 10 \<le> n"
proof (cases "2 ^ 63 \<le> n")
  case True
  assume n: "n < 2 ^ 64"
  have "0 < n" using True by (rule less_le_trans [rotated]) simp
  then have "(2::nat) ^ 63 < 2 ^ int_bit_length n" using int_bit_length_bounds [of n] True by (blast intro: le_less_trans)
  then have "63 < int_bit_length n" by (rule power_less_imp_less_exp [rotated]) simp
  then have b: "int_bit_length n = 64" using int_bit_length_le [OF n] by simp
  define q r where "q = n div 2 ^ 11" and "r = n mod 2 ^ 11"
  have nq: "n = q * 2 ^ 11 + r" by (simp add: q_def r_def)
  have r: "r < 2 ^ 11" by (simp add: r_def)
  have q: "q < 2 ^ 53" using n by (simp add: q_def less_mult_imp_div_less)
  have e: "round53 n = (if r > 2 ^ 10 \<or> (r = 2 ^ 10 \<and> odd q) then q + 1 else q) * 2 ^ 11"
    by (simp add: round53_def b Let_def q_def r_def)
  show ?thesis
  proof
    assume eq: "round53 n = 2 ^ 64"
    then have "(if r > 2 ^ 10 \<or> (r = 2 ^ 10 \<and> odd q) then q + 1 else q) = 2 ^ 53" using e by simp
    then have "q + 1 = 2 ^ 53" "r \<ge> 2 ^ 10" using q by (auto split: if_splits)
    then show "2 ^ 64 - 2 ^ 10 \<le> n" using nq by simp
  next
    assume t: "2 ^ 64 - 2 ^ 10 \<le> n"
    have "q + 1 = 2 ^ 53" using t nq r q by simp
    moreover have "r \<ge> 2 ^ 10" using t nq \<open>q + 1 = 2 ^ 53\<close> by simp
    moreover have "odd q" using \<open>q + 1 = 2 ^ 53\<close> by (metis even_plus_one_iff even_power even_numeral zero_less_numeral)
    ultimately show "round53 n = 2 ^ 64" using e by (simp split: if_splits)
  qed
next
  case False
  then have n: "n < 2 ^ 63" by simp
  have "int_bit_length n \<le> 63" using int_bit_length_le [OF n] .
  have "round53 n \<noteq> 2 ^ 64"
  proof (cases "int_bit_length n \<le> 53")
    case True
    then show ?thesis using n by (simp add: round53_def)
  next
    case False
    let ?s = "int_bit_length n - 53"
    have "n < 2 ^ (53 + ?s)" using int_bit_length_bounds [of n] False by (cases "n = 0") (auto simp: int_bit_length.simps [of 0])
    then have "n div 2 ^ ?s < 2 ^ 53" by (simp add: power_add less_mult_imp_div_less)
    then have "round53 n \<le> 2 ^ 53 * 2 ^ ?s" using False by (auto simp: round53_def Let_def)
    also have "\<dots> = 2 ^ (53 + ?s)" by (rule power_add [symmetric])
    also have "\<dots> = 2 ^ int_bit_length n" using False by (intro arg_cong [of _ _ "(^) 2"]) simp
    also have "\<dots> \<le> 2 ^ 63" using \<open>int_bit_length n \<le> 63\<close> by (rule power_increasing) simp
    finally show ?thesis by simp
  qed
  then show ?thesis using n by simp
qed

lemma from_bytes_big_bounds: "0 \<le> from_bytes_big bs \<and> from_bytes_big bs < 256 ^ length bs"
proof -
  have "0 \<le> foldl (\<lambda>acc b. acc * 256 + uint b) a bs \<and> foldl (\<lambda>acc b. acc * 256 + uint b) a bs < (a + 1) * 256 ^ length bs"
    if "0 \<le> a" for a and bs :: "byte list"
    using that
  proof (induction bs arbitrary: a)
    case (Cons b bs)
    have b: "0 \<le> uint b" "uint b < 256" using uint_bounded [of b] by simp_all
    then have "a * 256 + uint b + 1 \<le> (a + 1) * 256" by simp
    then have le: "(a * 256 + uint b + 1) * 256 ^ length bs \<le> (a + 1) * 256 * 256 ^ length bs" by (intro mult_right_mono) simp_all
    have "0 \<le> a * 256 + uint b" using Cons.prems b by simp
    note ih = Cons.IH [OF this]
    show ?case using ih less_le_trans [OF conjunct2 [OF ih] le] by (simp add: algebra_simps)
  qed simp
  from this [of 0 bs] show ?thesis by (simp add: from_bytes_big_def)
qed

lemma draw_bounds:
  assumes "length digest = 32"
  shows "0 \<le> draw_of digest" "draw_of digest \<le> 1" "draw_of digest = 1 \<longleftrightarrow> 2 ^ 64 - 2 ^ 10 \<le> from_bytes_big (take 8 digest)"
proof -
  let ?n = "nat (from_bytes_big (take 8 digest))"
  have f: "0 \<le> from_bytes_big (take 8 digest)" "from_bytes_big (take 8 digest) < 2 ^ 64"
    using from_bytes_big_bounds [of "take 8 digest"] assms by simp_all
  then have n: "?n < 2 ^ 64" by simp
  show "0 \<le> draw_of digest" by (simp add: draw_of_def)
  have "real (round53 ?n) \<le> 2 ^ 64" using round53_bound [OF n] by (metis of_nat_le_iff of_nat_numeral of_nat_power)
  then show "draw_of digest \<le> 1" by (simp add: draw_of_def)
  have "draw_of digest = 1 \<longleftrightarrow> real (round53 ?n) = real (2 ^ 64)" by (simp add: draw_of_def)
  also have "\<dots> \<longleftrightarrow> round53 ?n = 2 ^ 64" by (rule of_nat_eq_iff)
  also have "\<dots> \<longleftrightarrow> 2 ^ 64 - 2 ^ 10 \<le> ?n" by (rule round53_top [OF n])
  also have "\<dots> \<longleftrightarrow> 2 ^ 64 - 2 ^ 10 \<le> from_bytes_big (take 8 digest)" using f by (simp add: le_nat_iff)
  finally show "draw_of digest = 1 \<longleftrightarrow> 2 ^ 64 - 2 ^ 10 \<le> from_bytes_big (take 8 digest)" .
qed

definition encodable :: "pystr \<Rightarrow> bool" where
  "encodable t \<longleftrightarrow> list_all (\<lambda>c. \<not> (is_high c \<or> is_low c)) t"

lemma utf8_cp_ok: "(\<exists>bs. utf8_cp c = ok bs) \<longleftrightarrow> \<not> (is_high c \<or> is_low c)"
  by (auto simp: utf8_cp_def is_high_def is_low_def)

lemma utf8_encode_ok: "(\<exists>bs. utf8_encode t = ok bs) \<longleftrightarrow> encodable t"
proof (induction t)
  case (Cons c t)
  have "(\<exists>bs. utf8_encode (c # t) = ok bs) \<longleftrightarrow> (\<exists>bs. utf8_cp c = ok bs) \<and> (\<exists>bs. utf8_encode t = ok bs)"
    by (auto simp: utf8_encode_def res_simps)
  then show ?case using Cons.IH utf8_cp_ok by (simp add: encodable_def)
qed (simp add: utf8_encode_def encodable_def)

lemma uuid_encodable: "encodable (cps (uuid_str u))"
  using printable_uuid [of u] by (auto simp: printable_def encodable_def list_all_iff is_high_def is_low_def)

lemma assign_arm_ok:
  "(\<exists>a. assign_arm session_key agent salt pct = ok a) \<longleftrightarrow>
     (\<exists>p. pct = Fin p \<and> 0 \<le> p \<and> p \<le> 100) \<and> salt \<noteq> [] \<and> session_key \<noteq> [] \<and> encodable salt \<and> encodable session_key"
proof -
  let ?t = "salt @ [31] @ cps (uuid_str (agent_type_value agent)) @ [31] @ session_key"
  have "encodable ?t \<longleftrightarrow> encodable salt \<and> encodable session_key"
    using uuid_encodable [of "agent_type_value agent"] by (auto simp: encodable_def is_high_def is_low_def)
  then show ?thesis using utf8_encode_ok [of ?t] by (auto simp: assign_arm_def res_simps split: pyfloat.splits)
qed

section \<open>Properties\<close>

text \<open>C27. A request's deadline only tightens: after any sequence of narrowings and listener changes the start is the
  one taken at construction, the expiry is no later than the original and still after the start, and once the budget
  is exceeded it stays exceeded as the clock advances and operations continue. The embedding sub-budget never
  exceeds the embedding timeout, nor what remains, and is positive exactly while time remains.\<close>

theorem deadline_only_narrows:
  assumes "deadline_init now0 tot emb started = ok d" "d' = fold deadline_step ops d"
  shows "dl_started_at_ms d' = dl_started_at_ms d \<and> expires_at_ms d' \<le> expires_at_ms d \<and> dl_started_at_ms d' < expires_at_ms d' \<and>
     (\<forall>ops' now now'. total_exceeded now d' \<longrightarrow> now \<le> now' \<longrightarrow> total_exceeded now' (fold deadline_step ops' d')) \<and>
     (\<forall>now. embed_sub_budget_ms now d' \<le> real_of_int emb \<and> embed_sub_budget_ms now d' \<le> max 0 (remaining_ms now d') \<and>
        (0 < embed_sub_budget_ms now d' \<longleftrightarrow> \<not> total_exceeded now d'))"
proof -
  have i: "deadline_inv d" by (rule init_inv [OF assms(1)])
  have e: "dl_embed_timeout_ms d = emb" "0 < emb" using assms(1) by (auto simp: deadline_init_def split: if_splits)
  note n = run_narrows [OF i, of ops, folded assms(2)]
  have "total_exceeded now' (fold deadline_step ops' d')" if "total_exceeded now d'" "now \<le> now'" for ops' now now'
    using that run_narrows [of d' ops'] n by (auto simp: total_exceeded_def remaining_ms_def elapsed_ms_def)
  then show ?thesis using n e by (auto simp: expires_at_ms_def deadline_inv_def embed_sub_budget_ms_def total_exceeded_def)
qed

text \<open>A narrowing takes the minimum and tells exactly the current listeners, once each, and only when the expiry
  moved; a listener removed by its token is not told, and removing it never drops another.\<close>

theorem narrow_notifies:
  assumes "deadline_inv d" "add_narrow_listener l d = (tok, d1)" "0 < n"
  shows "narrow_total_budget_ms n d1 = ok (if n < dl_total_budget_ms d then map snd (dl_listeners d) @ [l] else [],
       d1\<lparr>dl_total_budget_ms := min n (dl_total_budget_ms d)\<rparr>) \<and>
     dl_listeners (remove_narrow_listener tok d1) = dl_listeners d"
proof -
  have d1: "tok = dl_next_listener_id d" "d1 = d\<lparr>dl_next_listener_id := tok + 1, dl_listeners := dl_listeners d @ [(tok, l)]\<rparr>"
    using assms(2) by (auto simp: add_narrow_listener_def Let_def)
  have "\<forall>e\<in>set (dl_listeners d). fst e \<noteq> tok" using assms(1) d1(1) by (auto simp: deadline_inv_def)
  then have "filter (\<lambda>e. fst e \<noteq> tok) (dl_listeners d) = dl_listeners d" by simp
  then show ?thesis using assms(3) d1(2) by (simp add: narrow_total_budget_ms_def remove_narrow_listener_def)
qed

text \<open>C39. The holdout draw: with 0 percent no session is held out; a session held out at some percentage stays held
  out at every larger one, so raising the percentage never moves a session back; with 100 percent a session is
  held out exactly when its draw stays below one, which fails for the 1024 largest draws because the division
  rounds them up to one.\<close>

theorem assign_arm_monotone:
  assumes "assign_arm session_key agent salt (Fin p) = ok a"
  shows "(p = 0 \<longrightarrow> a = MEMORY_ON) \<and>
     (\<forall>q. p \<le> q \<longrightarrow> q \<le> 100 \<longrightarrow> a = HOLDOUT \<longrightarrow> assign_arm session_key agent salt (Fin q) = ok HOLDOUT) \<and>
     (p = 100 \<longrightarrow> (\<exists>bs. utf8_encode (salt @ [31] @ cps (uuid_str (agent_type_value agent)) @ [31] @ session_key) = ok bs \<and>
        (a = HOLDOUT \<longleftrightarrow> from_bytes_big (take 8 (sha256 bs)) < 2 ^ 64 - 2 ^ 10)))"
proof -
  obtain bs where bs: "utf8_encode (salt @ [31] @ cps (uuid_str (agent_type_value agent)) @ [31] @ session_key) = ok bs"
    "a = (if draw_of (sha256 bs) < p / 100 then HOLDOUT else MEMORY_ON)" "0 \<le> p" "salt \<noteq> []" "session_key \<noteq> []"
    using assms by (auto simp: assign_arm_def res_simps split: if_splits)
  note db = draw_bounds [of "sha256 bs", OF length_sha256]
  have "draw_of (sha256 bs) < q / 100" if "p \<le> q" "a = HOLDOUT" for q
    using that bs(2) by (auto split: if_splits intro: less_le_trans divide_right_mono)
  then have "assign_arm session_key agent salt (Fin q) = ok HOLDOUT" if "p \<le> q" "q \<le> 100" "a = HOLDOUT" for q
    using that bs by (simp add: assign_arm_def)
  moreover have "a = HOLDOUT \<longleftrightarrow> from_bytes_big (take 8 (sha256 bs)) < 2 ^ 64 - 2 ^ 10" if "p = 100"
    using that db(2,3) bs(2) by (auto simp: less_le split: if_splits)
  ultimately show ?thesis using bs db(1) by auto
qed

section \<open>Witnesses\<close>

definition sample_deadline :: "nat deadline" where
  "sample_deadline = \<lparr>dl_total_budget_ms = 300, dl_embed_timeout_ms = 200, dl_started_at_ms = 5, dl_listeners = [], dl_next_listener_id = 0\<rparr>"

theorem deadline_only_narrows_witness:
  "\<exists>d :: nat deadline. deadline_init 5 300 200 None = ok d \<and> expires_at_ms (fold deadline_step [Listen 7, Narrow 100, Narrow 250] d) \<le> expires_at_ms d"
proof -
  have "deadline_init 5 300 200 None = ok sample_deadline" by (simp add: deadline_init_def sample_deadline_def)
  then show ?thesis using deadline_only_narrows [of 5 300 200 None sample_deadline _ "[Listen 7, Narrow 100, Narrow 250]"] by blast
qed

theorem narrow_notifies_witness:
  "\<exists>tok d1. deadline_inv sample_deadline \<and> add_narrow_listener 7 sample_deadline = (tok, d1) \<and> (\<exists>d2. narrow_total_budget_ms 100 d1 = ok ([7], d2))"
proof -
  have i: "deadline_inv sample_deadline" by (simp add: deadline_inv_def sample_deadline_def)
  obtain tok d1 where a: "add_narrow_listener 7 sample_deadline = (tok, d1)" by (meson surj_pair)
  show ?thesis using narrow_notifies [OF i a, of 100] i a by (auto simp: sample_deadline_def)
qed

theorem assign_arm_monotone_witness:
  "assign_arm [115] (AgentTypeId 1) [120] (Fin 0) = ok MEMORY_ON"
proof -
  obtain a where a: "assign_arm [115] (AgentTypeId 1) [120] (Fin 0) = ok a"
    using assign_arm_ok [of "[115]" "AgentTypeId 1" "[120]" "Fin 0"] by (auto simp: encodable_def is_high_def is_low_def)
  then show ?thesis using assign_arm_monotone [OF a] by simp
qed

end
