(* ===== verification/Assembler.thy ===== *)
theory Assembler
  imports Templates "HOL-Library.AList" "HOL-Library.Product_Lexorder"
begin

text \<open>
  Context assembly, \<open>src/src/tracebed/hotpath/assembler.py\<close>: deduplication, greedy packing under the
  token budgets, placement. A dict is the association list of its entries in insertion order (updating
  a present key keeps its place); \<open>sorted\<close> on the key \<open>(-score, str(memory_id))\<close> is \<open>sort_key\<close> on
  pairs in lexicographic order. A constructed candidate has a finite score, so its score is a real.
\<close>

section \<open>Definitions\<close>

definition DYNAMIC_SLOTS :: "slot list" where
  "DYNAMIC_SLOTS = filter (\<lambda>s. s \<noteq> STATIC_PREFIX) SLOT_ORDER"

record candidate =
  cd_slot :: slot
  cd_memory_id :: memory_id
  cd_mem_type :: mem_type
  cd_text :: pystr
  cd_tokens :: int
  cd_score :: real
  cd_dedup_key :: string

text \<open>\<open>Candidate(...)\<close> with its \<open>__post_init__\<close>.\<close>

definition mk_candidate :: "slot \<Rightarrow> memory_id \<Rightarrow> mem_type \<Rightarrow> pystr \<Rightarrow> int \<Rightarrow> pyfloat \<Rightarrow> string \<Rightarrow> candidate res" where
  "mk_candidate s mid mt text tokens score key =
     (if tokens < 0 then raise ValueError
      else if strip_cp text = [] then raise ValueError
      else if key = [] then raise ValueError
      else case score of
             Fin x \<Rightarrow> ok \<lparr>cd_slot = s, cd_memory_id = mid, cd_mem_type = mt, cd_text = text, cd_tokens = tokens, cd_score = x, cd_dedup_key = key\<rparr>
           | _ \<Rightarrow> raise ValueError)"

record assembled_context =
  ax_slots :: "context_slot list"
  ax_total_tokens :: int
  ax_dropped_memory_ids :: "memory_id list"

definition better :: "candidate \<Rightarrow> candidate \<Rightarrow> bool" where
  "better c current \<longleftrightarrow> cd_score c > cd_score current \<or> (cd_score c = cd_score current \<and> cd_memory_id c < cd_memory_id current)"

definition collapse_step :: "(candidate \<Rightarrow> 'k) \<Rightarrow> ('k \<times> candidate) list \<Rightarrow> candidate \<Rightarrow> ('k \<times> candidate) list" where
  "collapse_step key best c =
     (case map_of best (key c) of
        None \<Rightarrow> AList.update (key c) c best
      | Some current \<Rightarrow> if better c current then AList.update (key c) c best else best)"

definition collapse :: "(candidate \<Rightarrow> 'k) \<Rightarrow> candidate list \<Rightarrow> candidate list" where
  "collapse key cs = map snd (foldl (collapse_step key) [] cs)"

definition dedup :: "candidate list \<Rightarrow> candidate list" where
  "dedup cs = collapse cd_dedup_key (collapse cd_memory_id cs)"

definition pack_step :: "int \<Rightarrow> int option \<Rightarrow> candidate list \<times> int \<Rightarrow> candidate \<Rightarrow> candidate list \<times> int" where
  "pack_step cap max_count st c =
     (let (selected, used) = st in
      if (case max_count of None \<Rightarrow> False | Some m \<Rightarrow> int (length selected) \<ge> m) then st
      else if used + cd_tokens c > cap then st
      else (selected @ [c], used + cd_tokens c))"

definition score_key :: "candidate \<Rightarrow> real \<times> memory_id" where
  "score_key c = (- cd_score c, cd_memory_id c)"

definition pack :: "candidate list \<Rightarrow> int \<Rightarrow> int option \<Rightarrow> candidate list \<times> int" where
  "pack cs cap max_count = foldl (pack_step cap max_count) ([], 0) (sort_key score_key cs)"

definition clamp :: "int \<Rightarrow> int \<Rightarrow> int" where
  "clamp cap headroom = max (min cap headroom) 0"

text \<open>One turn of the loop over the dynamic slots.\<close>

definition fill_slot :: "effective_config \<Rightarrow> candidate list \<Rightarrow> candidate list \<times> int \<Rightarrow> slot \<Rightarrow> candidate list \<times> int" where
  "fill_slot cfg deduped st s =
     (let (dynamic_selected, remaining_dynamic) = st;
          items = filter (\<lambda>c. cd_slot c = s) deduped;
          slot_cap = clamp (case bc_slot_caps (budget cfg) s of None \<Rightarrow> 0 | Some n \<Rightarrow> n) remaining_dynamic;
          max_count = (if s = CANDIDATE_NOTE then Some (ta_candidate_cap_per_run (tier_a cfg)) else None);
          (selected, used) = pack items slot_cap max_count
      in (dynamic_selected @ selected, remaining_dynamic - used))"

text \<open>The selection of \<open>assemble\<close>, before it is turned into slots: the chosen candidates and the tokens.\<close>

definition select :: "effective_config \<Rightarrow> candidate list \<Rightarrow> candidate list \<times> int" where
  "select cfg cs =
     (let b = budget cfg;
          deduped = dedup cs;
          static_items = filter (\<lambda>c. cd_slot c = STATIC_PREFIX) deduped;
          prefs = filter (\<lambda>c. cd_mem_type c = PREFERENCE) static_items;
          lessons = filter (\<lambda>c. cd_mem_type c \<noteq> PREFERENCE) static_items;
          static_pool = clamp (bc_static_prefix b) (bc_total_tokens b);
          (prefs_selected, prefs_used) = pack prefs (clamp (bc_static_prefix_prefs b) static_pool) None;
          lessons_cap = clamp (bc_static_prefix_lessons b) (static_pool - prefs_used);
          (lessons_selected, lessons_used) = pack lessons lessons_cap None;
          dynamic_pool = clamp (bc_dynamic b) (bc_total_tokens b - prefs_used - lessons_used);
          (dynamic_selected, remaining_dynamic) = foldl (fill_slot cfg deduped) ([], dynamic_pool) DYNAMIC_SLOTS
      in (prefs_selected @ lessons_selected @ dynamic_selected, prefs_used + lessons_used + (dynamic_pool - remaining_dynamic)))"

definition assemble :: "effective_config \<Rightarrow> candidate list \<Rightarrow> assembled_context" where
  "assemble cfg cs =
     (let (ordered_candidates, total_tokens) = select cfg cs;
          selected_ids = cd_memory_id ` set ordered_candidates
      in \<lparr>ax_slots = map (\<lambda>c. \<lparr>cs_slot = cd_slot c, cs_memory_id = Some (memory_value (cd_memory_id c)),
                              cs_tokens = cd_tokens c, cs_text = cd_text c\<rparr>) ordered_candidates,
          ax_total_tokens = total_tokens,
          ax_dropped_memory_ids =
            sorted_list_of_set (set (map cd_memory_id (filter (\<lambda>c. cd_memory_id c \<notin> selected_ids) cs)))\<rparr>)"

section \<open>Deduplication\<close>

lemma better_irrefl [simp]: "\<not> better c c"
  by (simp add: better_def)

lemma better_trans: "better a b \<Longrightarrow> better b c \<Longrightarrow> better a c"
  by (auto simp: better_def)

lemma better_asym: "better a b \<Longrightarrow> \<not> better b a"
  using better_trans better_irrefl by blast

lemma better_linear: "better a b \<or> better b a \<or> (cd_score a = cd_score b \<and> cd_memory_id a = cd_memory_id b)"
  by (auto simp: better_def)

text \<open>The loop's dict: distinct keys, each entry a candidate seen under its key that no other seen one beats.\<close>

definition best_inv :: "(candidate \<Rightarrow> 'k) \<Rightarrow> candidate set \<Rightarrow> ('k \<times> candidate) list \<Rightarrow> bool" where
  "best_inv key seen best \<longleftrightarrow> distinct (map fst best) \<and>
     (\<forall>k c. map_of best k = Some c \<longrightarrow> key c = k \<and> c \<in> seen \<and> (\<forall>d\<in>seen. key d = k \<longrightarrow> \<not> better d c)) \<and>
     (\<forall>d\<in>seen. map_of best (key d) \<noteq> None)"

lemma collapse_step_map:
  "map_of (collapse_step key best c) =
     (if (case map_of best (key c) of None \<Rightarrow> True | Some d \<Rightarrow> better c d) then (map_of best)(key c \<mapsto> c) else map_of best)"
  by (auto simp: collapse_step_def update_conv' split: option.splits)

lemma collapse_step_inv:
  assumes inv: "best_inv key seen best"
  shows "best_inv key (insert c seen) (collapse_step key best c)"
proof -
  have "distinct (map fst (collapse_step key best c))"
    using inv by (auto simp: best_inv_def collapse_step_def distinct_update split: option.splits)
  moreover have "key e = k \<and> e \<in> insert c seen \<and> (\<forall>d\<in>insert c seen. key d = k \<longrightarrow> \<not> better d e)"
    if e: "map_of (collapse_step key best c) k = Some e" for k e
  proof (cases "k = key c")
    case True
    show ?thesis
    proof (cases "map_of best (key c)")
      case None
      then have "\<forall>d\<in>seen. key d \<noteq> key c" using inv unfolding best_inv_def by metis
      then show ?thesis using e True None by (auto simp: collapse_step_map)
    next
      case (Some d)
      have d: "key d = key c" "d \<in> seen" "\<forall>x\<in>seen. key x = key c \<longrightarrow> \<not> better x d" using inv Some unfolding best_inv_def by blast+
      show ?thesis
      proof (cases "better c d")
        case bt: True
        have "\<not> better x c" if "x \<in> seen" "key x = key c" for x using d(3) that better_trans [OF _ bt] by blast
        then show ?thesis using e True Some bt by (auto simp: collapse_step_map)
      next
        case False
        then show ?thesis using e True Some d by (auto simp: collapse_step_map)
      qed
    qed
  next
    case False
    then have "map_of best k = Some e" using e by (auto simp: collapse_step_map split: if_splits)
    then show ?thesis using inv False unfolding best_inv_def by blast
  qed
  moreover have "map_of (collapse_step key best c) (key d) \<noteq> None" if "d \<in> insert c seen" for d
    using inv that by (auto simp: best_inv_def collapse_step_map split: option.splits)
  ultimately show ?thesis unfolding best_inv_def by blast
qed

lemma collapse_inv: "best_inv key seen best \<Longrightarrow> best_inv key (seen \<union> set cs) (foldl (collapse_step key) best cs)"
proof (induction cs arbitrary: seen best)
  case (Cons c cs)
  then show ?case using Cons.IH [OF collapse_step_inv [OF Cons.prems]] by simp
qed simp

lemma collapse_dict: "best_inv key (set cs) (foldl (collapse_step key) [] cs)"
proof -
  have "best_inv key {} []" by (simp add: best_inv_def)
  from collapse_inv [OF this, of cs] show ?thesis by simp
qed

lemma collapse_mem:
  assumes "c \<in> set (collapse key cs)"
  shows "c \<in> set cs \<and> (\<forall>d\<in>set cs. key d = key c \<longrightarrow> \<not> better d c)"
proof -
  let ?b = "foldl (collapse_step key) [] cs"
  obtain k where "(k, c) \<in> set ?b" using assms by (auto simp: collapse_def)
  then have "map_of ?b k = Some c" using collapse_dict [of key cs] by (simp add: best_inv_def)
  then show ?thesis using collapse_dict [of key cs] unfolding best_inv_def by blast
qed

lemma collapse_distinct: "distinct (map key (collapse key cs))"
proof -
  let ?b = "foldl (collapse_step key) [] cs"
  have "key c = k" if "(k, c) \<in> set ?b" for k c
    using that collapse_dict [of key cs] unfolding best_inv_def by (metis map_of_eq_Some_iff)
  then have e: "map key (map snd ?b) = map fst ?b" by auto
  show ?thesis unfolding collapse_def e using collapse_dict [of key cs] unfolding best_inv_def by blast
qed

lemma collapse_covers: "d \<in> set cs \<Longrightarrow> \<exists>c\<in>set (collapse key cs). key c = key d"
proof -
  assume d: "d \<in> set cs"
  let ?b = "foldl (collapse_step key) [] cs"
  obtain c where c: "map_of ?b (key d) = Some c" using d collapse_dict [of key cs] by (auto simp: best_inv_def)
  then have "key c = key d" using collapse_dict [of key cs] unfolding best_inv_def by blast
  then show ?thesis using map_of_SomeD [OF c] by (force simp: collapse_def)
qed

lemma collapse_subset: "set (collapse key cs) \<subseteq> set cs"
  using collapse_mem by blast

lemma dedup_subset: "set (dedup cs) \<subseteq> set cs"
  unfolding dedup_def using collapse_subset [of cd_dedup_key "collapse cd_memory_id cs"] collapse_subset [of cd_memory_id cs] by simp

lemma dedup_distinct: "distinct (map cd_dedup_key (dedup cs))" "distinct (map cd_memory_id (dedup cs))"
proof -
  show keys: "distinct (map cd_dedup_key (dedup cs))" unfolding dedup_def by (rule collapse_distinct)
  let ?m = "collapse cd_memory_id cs"
  have "inj_on cd_memory_id (set ?m)" using collapse_distinct [of cd_memory_id cs] by (simp add: distinct_map)
  moreover have "set (dedup cs) \<subseteq> set ?m" unfolding dedup_def by (rule collapse_subset)
  moreover have "distinct (dedup cs)" using keys by (simp add: distinct_map)
  ultimately show "distinct (map cd_memory_id (dedup cs))" by (simp add: distinct_map inj_on_subset)
qed

section \<open>Packing\<close>

definition toks :: "candidate list \<Rightarrow> int" where
  "toks cs = sum_list (map cd_tokens cs)"

lemma toks_simps [simp]: "toks [] = 0" "toks (c # cs) = cd_tokens c + toks cs" "toks (xs @ ys) = toks xs + toks ys"
  by (simp_all add: toks_def)

lemma toks_nonneg: "\<forall>c\<in>set cs. 0 \<le> cd_tokens c \<Longrightarrow> 0 \<le> toks cs"
  by (induction cs) auto

definition full :: "int option \<Rightarrow> candidate list \<Rightarrow> bool" where
  "full max_count selected \<longleftrightarrow> (case max_count of None \<Rightarrow> False | Some m \<Rightarrow> int (length selected) \<ge> m)"

lemma pack_step_eq:
  "pack_step cap mc (selected, used) c =
     (if full mc selected \<or> used + cd_tokens c > cap then (selected, used) else (selected @ [c], used + cd_tokens c))"
  by (simp add: pack_step_def full_def)

lemma full_append: "full mc xs \<Longrightarrow> full mc (xs @ ys)"
  by (auto simp: full_def split: option.splits)

lemma pack_fold:
  assumes "\<forall>c\<in>set xs. 0 \<le> cd_tokens c" "used \<le> cap" "foldl (pack_step cap mc) (sel, used) xs = (sel', used')"
  shows "\<exists>ys. sel' = sel @ ys \<and> subseq ys xs \<and> used' = used + toks ys \<and> used' \<le> cap \<and>
     (\<forall>m. mc = Some m \<longrightarrow> int (length sel) \<le> max m 0 \<longrightarrow> int (length sel') \<le> max m 0) \<and>
     (\<forall>c\<in>set xs. c \<in> set ys \<or> full mc sel' \<or> used' + cd_tokens c > cap)"
  using assms
proof (induction xs arbitrary: sel used)
  case (Cons c xs)
  show ?case
  proof (cases "full mc sel \<or> used + cd_tokens c > cap")
    case True
    then have "foldl (pack_step cap mc) (sel, used) xs = (sel', used')" using Cons.prems(3) by (simp add: pack_step_eq)
    then obtain ys where ys: "sel' = sel @ ys" "subseq ys xs" "used' = used + toks ys" "used' \<le> cap"
      "\<forall>m. mc = Some m \<longrightarrow> int (length sel) \<le> max m 0 \<longrightarrow> int (length sel') \<le> max m 0"
      "\<forall>c\<in>set xs. c \<in> set ys \<or> full mc sel' \<or> used' + cd_tokens c > cap"
      using Cons.IH [of used sel] Cons.prems(1,2) by auto
    have "0 \<le> toks ys" using subseq_set [OF ys(2)] Cons.prems(1) by (intro toks_nonneg) auto
    then have "full mc sel' \<or> used' + cd_tokens c > cap" using True ys(1,3) full_append [of mc sel ys] by auto
    then show ?thesis using ys by (intro exI [of _ ys]) auto
  next
    case False
    then have "foldl (pack_step cap mc) (sel @ [c], used + cd_tokens c) xs = (sel', used')" using Cons.prems(3) by (simp add: pack_step_eq)
    moreover have "int (length (sel @ [c])) \<le> max m 0" if "mc = Some m" for m using False that by (simp add: full_def)
    ultimately obtain ys where ys: "sel' = (sel @ [c]) @ ys" "subseq ys xs" "used' = used + cd_tokens c + toks ys" "used' \<le> cap"
      "\<forall>m. mc = Some m \<longrightarrow> int (length sel') \<le> max m 0"
      "\<forall>c\<in>set xs. c \<in> set ys \<or> full mc sel' \<or> used' + cd_tokens c > cap"
      using Cons.IH [of "used + cd_tokens c" "sel @ [c]"] Cons.prems(1) False by auto
    then show ?thesis by (intro exI [of _ "c # ys"]) auto
  qed
qed simp

lemma pack_spec:
  assumes "\<forall>c\<in>set cs. 0 \<le> cd_tokens c" "0 \<le> cap" "pack cs cap mc = (sel, used)"
  shows "subseq sel (sort_key score_key cs) \<and> used = toks sel \<and> used \<le> cap \<and> (\<forall>m. mc = Some m \<longrightarrow> int (length sel) \<le> max m 0) \<and>
     (\<forall>c\<in>set cs. c \<in> set sel \<or> full mc sel \<or> used + cd_tokens c > cap)"
  using pack_fold [of "sort_key score_key cs" 0 cap mc "[]" sel used] assms by (auto simp: pack_def)

lemma pack_set:
  assumes "\<forall>c\<in>set cs. 0 \<le> cd_tokens c" "0 \<le> cap" "pack cs cap mc = (sel, used)"
  shows "set sel \<subseteq> set cs" "distinct (map cd_memory_id cs) \<Longrightarrow> distinct (map cd_memory_id sel)" "0 \<le> toks sel"
proof -
  have sub: "subseq sel (sort_key score_key cs)" using pack_spec [OF assms] by blast
  show set: "set sel \<subseteq> set cs" using subseq_set [OF sub] by simp
  show "0 \<le> toks sel" using set assms(1) by (intro toks_nonneg) auto
  have "distinct (map cd_memory_id (sort_key score_key cs))" if "distinct (map cd_memory_id cs)" using that by (simp add: distinct_map)
  then show "distinct (map cd_memory_id cs) \<Longrightarrow> distinct (map cd_memory_id sel)"
    using subseq_map [OF sub, of cd_memory_id] distinct_subseq by blast
qed

lemma clamp_bounds: "0 \<le> clamp a b" "0 \<le> b \<Longrightarrow> clamp a b \<le> b" "clamp a b \<le> max a 0" "clamp a b \<le> max b 0"
  by (auto simp: clamp_def)

definition slot_cap :: "effective_config \<Rightarrow> slot \<Rightarrow> int" where
  "slot_cap cfg s = (case bc_slot_caps (budget cfg) s of None \<Rightarrow> 0 | Some n \<Rightarrow> n)"

definition of_slot :: "slot \<Rightarrow> candidate list \<Rightarrow> candidate list" where
  "of_slot s cs = filter (\<lambda>c. cd_slot c = s) cs"

lemma fill_slot_spec:
  assumes "\<forall>c\<in>set ded. 0 \<le> cd_tokens c" "0 \<le> r" "fill_slot cfg ded (d, r) s = (d', r')"
  shows "\<exists>new. d' = d @ new \<and> r' = r - toks new \<and> 0 \<le> r' \<and> 0 \<le> toks new \<and> set new \<subseteq> set (of_slot s ded) \<and>
     toks new \<le> max (slot_cap cfg s) 0 \<and> (s = CANDIDATE_NOTE \<longrightarrow> int (length new) \<le> max (ta_candidate_cap_per_run (tier_a cfg)) 0) \<and>
     (distinct (map cd_memory_id ded) \<longrightarrow> distinct (map cd_memory_id new))"
proof -
  let ?mc = "if s = CANDIDATE_NOTE then Some (ta_candidate_cap_per_run (tier_a cfg)) else None"
  obtain sel used where p: "pack (of_slot s ded) (clamp (slot_cap cfg s) r) ?mc = (sel, used)" by (meson surj_pair)
  have nn: "\<forall>c\<in>set (of_slot s ded). 0 \<le> cd_tokens c" using assms(1) by (auto simp: of_slot_def)
  have dd: "distinct (map cd_memory_id ded) \<Longrightarrow> distinct (map cd_memory_id (of_slot s ded))"
    by (simp add: of_slot_def distinct_map_filter)
  have "d' = d @ sel" "r' = r - used" using assms(3) p by (simp_all add: fill_slot_def of_slot_def slot_cap_def Let_def)
  then show ?thesis
    using pack_spec [OF nn clamp_bounds(1) p] pack_set [OF nn clamp_bounds(1) p] dd clamp_bounds [of "slot_cap cfg s" r] assms(2)
    by (intro exI [of _ sel]) (auto split: if_splits)
qed

lemma of_slot_append [simp]: "of_slot s (xs @ ys) = of_slot s xs @ of_slot s ys"
  by (simp add: of_slot_def)

lemma of_slot_none: "\<forall>c\<in>set xs. cd_slot c \<noteq> s \<Longrightarrow> of_slot s xs = []"
  by (simp add: of_slot_def filter_empty_conv)

lemma of_slot_all: "\<forall>c\<in>set xs. cd_slot c = s \<Longrightarrow> of_slot s xs = xs"
  by (simp add: of_slot_def)

text \<open>What the loop over the dynamic slots adds.\<close>

definition fill_ok :: "effective_config \<Rightarrow> candidate list \<Rightarrow> slot list \<Rightarrow> candidate list \<Rightarrow> bool" where
  "fill_ok cfg ded ss new \<longleftrightarrow> set new \<subseteq> {c \<in> set ded. cd_slot c \<in> set ss} \<and>
     (\<forall>s\<in>set ss. toks (of_slot s new) \<le> max (slot_cap cfg s) 0) \<and>
     (CANDIDATE_NOTE \<in> set ss \<longrightarrow> int (length (of_slot CANDIDATE_NOTE new)) \<le> max (ta_candidate_cap_per_run (tier_a cfg)) 0) \<and>
     sorted (map (slot_rank \<circ> cd_slot) new) \<and> (distinct (map cd_memory_id ded) \<longrightarrow> distinct (map cd_memory_id new))"

lemma fill_fold:
  assumes "\<forall>c\<in>set ded. 0 \<le> cd_tokens c" "0 \<le> r" "sorted_wrt (<) (map slot_rank ss)" "foldl (fill_slot cfg ded) (d, r) ss = (d', r')"
  shows "\<exists>new. d' = d @ new \<and> r' = r - toks new \<and> 0 \<le> r' \<and> fill_ok cfg ded ss new"
  using assms
proof (induction ss arbitrary: d r)
  case Nil
  then show ?case by (simp add: fill_ok_def)
next
  case (Cons s ss)
  obtain d1 r1 where f: "fill_slot cfg ded (d, r) s = (d1, r1)" by (meson surj_pair)
  obtain n1 where n1: "d1 = d @ n1" "r1 = r - toks n1" "0 \<le> r1" "set n1 \<subseteq> set (of_slot s ded)" "toks n1 \<le> max (slot_cap cfg s) 0"
    "s = CANDIDATE_NOTE \<longrightarrow> int (length n1) \<le> max (ta_candidate_cap_per_run (tier_a cfg)) 0"
    "distinct (map cd_memory_id ded) \<longrightarrow> distinct (map cd_memory_id n1)"
    using fill_slot_spec [OF Cons.prems(1,2) f] by blast
  obtain n2 where n2: "d' = d1 @ n2" "r' = r1 - toks n2" "0 \<le> r'" "fill_ok cfg ded ss n2"
    using Cons.IH [OF Cons.prems(1) n1(3), of d1] Cons.prems(3,4) f by auto
  have s1: "\<forall>c\<in>set n1. c \<in> set ded \<and> cd_slot c = s" using n1(4) by (auto simp: of_slot_def)
  have s2: "\<forall>c\<in>set n2. c \<in> set ded \<and> cd_slot c \<in> set ss" using n2(4) by (auto simp: fill_ok_def)
  have rank: "\<forall>t\<in>set ss. slot_rank s < slot_rank t" using Cons.prems(3) by simp
  have disj: "s \<notin> set ss" using rank by auto
  have "toks (of_slot t (n1 @ n2)) \<le> max (slot_cap cfg t) 0" if "t \<in> set (s # ss)" for t
  proof (cases "t = s")
    case True
    have "of_slot s n2 = []" using s2 disj by (intro of_slot_none) auto
    then show ?thesis using True n1(5) of_slot_all [of n1 s] s1 by simp
  next
    case False
    have "of_slot t n1 = []" using s1 False by (intro of_slot_none) auto
    then show ?thesis using that False n2(4) by (simp add: fill_ok_def)
  qed
  moreover have "int (length (of_slot CANDIDATE_NOTE (n1 @ n2))) \<le> max (ta_candidate_cap_per_run (tier_a cfg)) 0" if "CANDIDATE_NOTE \<in> set (s # ss)"
  proof (cases "s = CANDIDATE_NOTE")
    case True
    have "of_slot s n2 = []" using s2 disj by (intro of_slot_none) auto
    then show ?thesis using True n1(6) of_slot_all [of n1 s] s1 by simp
  next
    case False
    have "of_slot CANDIDATE_NOTE n1 = []" using s1 False by (intro of_slot_none) auto
    then show ?thesis using that False n2(4) by (simp add: fill_ok_def)
  qed
  moreover have "sorted (map (slot_rank \<circ> cd_slot) (n1 @ n2))"
  proof -
    have "map (slot_rank \<circ> cd_slot) n1 = replicate (length n1) (slot_rank s)" using s1 by (auto simp: map_replicate_const intro: map_cong [THEN trans])
    then show ?thesis using n2(4) s2 rank by (force simp: fill_ok_def sorted_append)
  qed
  moreover have "distinct (map cd_memory_id (n1 @ n2))" if dd: "distinct (map cd_memory_id ded)"
  proof -
    have inj: "inj_on cd_memory_id (set ded)" using dd by (simp add: distinct_map)
    have "cd_memory_id a \<noteq> cd_memory_id b" if "a \<in> set n1" "b \<in> set n2" for a b
      using inj_onD [OF inj, of a b] s1 s2 that disj by auto
    then show ?thesis using n1(7) n2(4) dd by (auto simp: fill_ok_def)
  qed
  ultimately have "fill_ok cfg ded (s # ss) (n1 @ n2)" using s1 s2 unfolding fill_ok_def by auto
  then show ?case using n1 n2 by (intro exI [of _ "n1 @ n2"]) auto
qed

section \<open>The selection\<close>

lemma dynamic_slots_sorted: "sorted_wrt (<) (map slot_rank DYNAMIC_SLOTS)"
  by (simp add: DYNAMIC_SLOTS_def SLOT_ORDER_def slot_rank_def)

lemma set_dynamic_slots: "s \<in> set DYNAMIC_SLOTS \<longleftrightarrow> s \<noteq> STATIC_PREFIX"
  by (cases s) (simp_all add: DYNAMIC_SLOTS_def SLOT_ORDER_def)

text \<open>The three parts of a selection: preferences and lessons of the static prefix, then the dynamic slots.\<close>

lemma select_parts:
  assumes nn: "\<forall>c\<in>set cs. 0 \<le> cd_tokens c" and sel: "select cfg cs = (sel, tot)"
  obtains P L D where "sel = P @ L @ D" "tot = toks sel"
    "set P \<subseteq> {c \<in> set (dedup cs). cd_slot c = STATIC_PREFIX \<and> cd_mem_type c = PREFERENCE}"
    "set L \<subseteq> {c \<in> set (dedup cs). cd_slot c = STATIC_PREFIX \<and> cd_mem_type c \<noteq> PREFERENCE}"
    "fill_ok cfg (dedup cs) DYNAMIC_SLOTS D"
    "distinct (map cd_memory_id P)" "distinct (map cd_memory_id L)"
    "toks P \<le> max (bc_static_prefix_prefs (budget cfg)) 0" "toks L \<le> max (bc_static_prefix_lessons (budget cfg)) 0"
    "toks P + toks L \<le> max (bc_static_prefix (budget cfg)) 0" "toks D \<le> max (bc_dynamic (budget cfg)) 0"
    "toks P + toks L + toks D \<le> max (bc_total_tokens (budget cfg)) 0"
proof -
  define ded where "ded = dedup cs"
  define b where "b = budget cfg"
  define pool where "pool = clamp (bc_static_prefix b) (bc_total_tokens b)"
  define prefs lessons where "prefs = filter (\<lambda>c. cd_mem_type c = PREFERENCE) (filter (\<lambda>c. cd_slot c = STATIC_PREFIX) ded)"
    and "lessons = filter (\<lambda>c. cd_mem_type c \<noteq> PREFERENCE) (filter (\<lambda>c. cd_slot c = STATIC_PREFIX) ded)"
  obtain P pu where P: "pack prefs (clamp (bc_static_prefix_prefs b) pool) None = (P, pu)" by (meson surj_pair)
  obtain L lu where L: "pack lessons (clamp (bc_static_prefix_lessons b) (pool - pu)) None = (L, lu)" by (meson surj_pair)
  define dpool where "dpool = clamp (bc_dynamic b) (bc_total_tokens b - pu - lu)"
  obtain D rd where D: "foldl (fill_slot cfg ded) ([], dpool) DYNAMIC_SLOTS = (D, rd)" by (meson surj_pair)
  have eq: "sel = P @ L @ D" "tot = pu + lu + (dpool - rd)"
    using sel P L D by (simp_all add: select_def Let_def ded_def b_def pool_def prefs_def lessons_def dpool_def)
  have nnd: "\<forall>c\<in>set ded. 0 \<le> cd_tokens c" using nn dedup_subset [of cs] by (auto simp: ded_def)
  have did: "distinct (map cd_memory_id ded)" unfolding ded_def by (rule dedup_distinct)
  have nnp: "\<forall>c\<in>set prefs. 0 \<le> cd_tokens c" "distinct (map cd_memory_id prefs)"
    and nnl: "\<forall>c\<in>set lessons. 0 \<le> cd_tokens c" "distinct (map cd_memory_id lessons)"
    using nnd did by (auto simp: prefs_def lessons_def intro!: distinct_map_filter)
  note ps = pack_spec [OF nnp(1) clamp_bounds(1) P] pack_set [OF nnp(1) clamp_bounds(1) P]
  note ls = pack_spec [OF nnl(1) clamp_bounds(1) L] pack_set [OF nnl(1) clamp_bounds(1) L]
  have d0: "0 \<le> dpool" by (simp add: dpool_def clamp_bounds)
  obtain new where new: "D = new" "rd = dpool - toks new" "0 \<le> rd" "fill_ok cfg ded DYNAMIC_SLOTS new"
    using fill_fold [OF nnd d0 dynamic_slots_sorted D] by auto
  show ?thesis
  proof (rule that [OF eq(1)])
    show "tot = toks sel" using eq ps ls new by simp
    show "set P \<subseteq> {c \<in> set (dedup cs). cd_slot c = STATIC_PREFIX \<and> cd_mem_type c = PREFERENCE}"
      using ps(2) by (auto simp: prefs_def ded_def)
    show "set L \<subseteq> {c \<in> set (dedup cs). cd_slot c = STATIC_PREFIX \<and> cd_mem_type c \<noteq> PREFERENCE}"
      using ls(2) by (auto simp: lessons_def ded_def)
    show "fill_ok cfg (dedup cs) DYNAMIC_SLOTS D" using new by (simp add: ded_def)
    show "distinct (map cd_memory_id P)" "distinct (map cd_memory_id L)" using ps(3) nnp(2) ls(3) nnl(2) by blast+
    have pu: "pu = toks P" "toks P \<le> clamp (bc_static_prefix_prefs b) pool" using ps(1) by auto
    have lu: "lu = toks L" "toks L \<le> clamp (bc_static_prefix_lessons b) (pool - toks P)" using ls(1) pu by auto
    have td: "toks D \<le> clamp (bc_dynamic b) (bc_total_tokens b - toks P - toks L)"
      using new pu lu by (simp add: dpool_def)
    show "toks P \<le> max (bc_static_prefix_prefs (budget cfg)) 0" "toks L \<le> max (bc_static_prefix_lessons (budget cfg)) 0"
      "toks D \<le> max (bc_dynamic (budget cfg)) 0"
      using pu(2) lu(2) td clamp_bounds(3) order_trans unfolding b_def by blast+
    have pool: "0 \<le> pool" "pool \<le> max (bc_static_prefix b) 0" "pool \<le> max (bc_total_tokens b) 0"
      unfolding pool_def by (rule clamp_bounds)+
    have pp: "toks P \<le> pool" using pu(2) clamp_bounds(2) [OF pool(1), of "bc_static_prefix_prefs b"] by simp
    have pl: "toks P + toks L \<le> pool" using lu(2) clamp_bounds(2) [of "pool - toks P" "bc_static_prefix_lessons b"] pp by simp
    then show "toks P + toks L \<le> max (bc_static_prefix (budget cfg)) 0" using pool(2) by (simp add: b_def)
    have "toks D \<le> max (bc_total_tokens b - toks P - toks L) 0" using td clamp_bounds(4) order_trans by blast
    then have "toks P + toks L + toks D \<le> max (bc_total_tokens b) (toks P + toks L)" by linarith
    then show "toks P + toks L + toks D \<le> max (bc_total_tokens (budget cfg)) 0" using pl pool(3) by (simp add: b_def)
  qed
qed

lemma sorted_map_const: "\<forall>x\<in>set xs. f x = k \<Longrightarrow> sorted (map f xs)" for f :: "'a \<Rightarrow> nat"
  by (induction xs) auto

lemma select_set:
  assumes "\<forall>c\<in>set cs. 0 \<le> cd_tokens c" "select cfg cs = (sel, tot)"
  shows "set sel \<subseteq> set (dedup cs)" "distinct (map cd_memory_id sel)" "distinct (map cd_dedup_key sel)"
    "sorted (map (slot_rank \<circ> cd_slot) sel)"
proof -
  obtain P L D where pld: "sel = P @ L @ D" "tot = toks sel"
    "set P \<subseteq> {c \<in> set (dedup cs). cd_slot c = STATIC_PREFIX \<and> cd_mem_type c = PREFERENCE}"
    "set L \<subseteq> {c \<in> set (dedup cs). cd_slot c = STATIC_PREFIX \<and> cd_mem_type c \<noteq> PREFERENCE}"
    "fill_ok cfg (dedup cs) DYNAMIC_SLOTS D"
    "distinct (map cd_memory_id P)" "distinct (map cd_memory_id L)"
    "toks P \<le> max (bc_static_prefix_prefs (budget cfg)) 0" "toks L \<le> max (bc_static_prefix_lessons (budget cfg)) 0"
    "toks P + toks L \<le> max (bc_static_prefix (budget cfg)) 0" "toks D \<le> max (bc_dynamic (budget cfg)) 0"
    "toks P + toks L + toks D \<le> max (bc_total_tokens (budget cfg)) 0"
    by (rule select_parts [OF assms])
  have D: "set D \<subseteq> {c \<in> set (dedup cs). cd_slot c \<noteq> STATIC_PREFIX}" "sorted (map (slot_rank \<circ> cd_slot) D)"
    "distinct (map cd_memory_id D)"
    using pld(5) dedup_distinct(2) by (auto simp: fill_ok_def set_dynamic_slots)
  show sub: "set sel \<subseteq> set (dedup cs)" using pld(1,3,4) D(1) by auto
  have inj: "inj_on cd_memory_id (set (dedup cs))" "inj_on cd_dedup_key (set (dedup cs))"
    using dedup_distinct [of cs] by (simp_all add: distinct_map)
  have "distinct sel" using pld(1,3,4,6,7) D by (auto simp: distinct_map)
  then show "distinct (map cd_memory_id sel)" "distinct (map cd_dedup_key sel)"
    using inj sub by (auto simp: distinct_map intro: inj_on_subset)
  have "\<forall>c\<in>set (P @ L). slot_rank (cd_slot c) = 0" using pld(3,4) by (auto simp: slot_rank_def)
  then have "sorted (map (slot_rank \<circ> cd_slot) (P @ L))" by (intro sorted_map_const [of _ _ 0]) simp
  then have "sorted (map (slot_rank \<circ> cd_slot) ((P @ L) @ D))"
    using D(2) \<open>\<forall>c\<in>set (P @ L). slot_rank (cd_slot c) = 0\<close> unfolding map_append sorted_append by auto
  then show "sorted (map (slot_rank \<circ> cd_slot) sel)" using pld(1) by simp
qed

lemma select_caps:
  assumes "\<forall>c\<in>set cs. 0 \<le> cd_tokens c" "select cfg cs = (sel, tot)"
  shows "tot = toks sel" "tot \<le> max (bc_total_tokens (budget cfg)) 0"
    "toks (of_slot STATIC_PREFIX sel) \<le> max (bc_static_prefix (budget cfg)) 0"
    "s \<noteq> STATIC_PREFIX \<Longrightarrow> toks (of_slot s sel) \<le> max (slot_cap cfg s) 0"
    "int (length (of_slot CANDIDATE_NOTE sel)) \<le> max (ta_candidate_cap_per_run (tier_a cfg)) 0"
proof -
  obtain P L D where pld: "sel = P @ L @ D" "tot = toks sel"
    "set P \<subseteq> {c \<in> set (dedup cs). cd_slot c = STATIC_PREFIX \<and> cd_mem_type c = PREFERENCE}"
    "set L \<subseteq> {c \<in> set (dedup cs). cd_slot c = STATIC_PREFIX \<and> cd_mem_type c \<noteq> PREFERENCE}"
    "fill_ok cfg (dedup cs) DYNAMIC_SLOTS D"
    "distinct (map cd_memory_id P)" "distinct (map cd_memory_id L)"
    "toks P \<le> max (bc_static_prefix_prefs (budget cfg)) 0" "toks L \<le> max (bc_static_prefix_lessons (budget cfg)) 0"
    "toks P + toks L \<le> max (bc_static_prefix (budget cfg)) 0" "toks D \<le> max (bc_dynamic (budget cfg)) 0"
    "toks P + toks L + toks D \<le> max (bc_total_tokens (budget cfg)) 0"
    by (rule select_parts [OF assms])
  have Ds: "\<forall>c\<in>set D. cd_slot c \<noteq> STATIC_PREFIX" using pld(5) by (auto simp: fill_ok_def set_dynamic_slots)
  have static: "of_slot STATIC_PREFIX P = P" "of_slot STATIC_PREFIX L = L" "of_slot STATIC_PREFIX D = []"
    using pld(3,4) Ds by (auto intro: of_slot_all of_slot_none)
  have other: "of_slot s P = []" "of_slot s L = []" if "s \<noteq> STATIC_PREFIX" for s
    using pld(3,4) that by (auto intro!: of_slot_none)
  show "tot = toks sel" by (rule pld(2))
  show "tot \<le> max (bc_total_tokens (budget cfg)) 0" using pld(1,2,12) by simp
  show "toks (of_slot STATIC_PREFIX sel) \<le> max (bc_static_prefix (budget cfg)) 0" using pld(1,10) static by simp
  show "toks (of_slot s sel) \<le> max (slot_cap cfg s) 0" if "s \<noteq> STATIC_PREFIX"
    using that other [OF that] pld(1,5) by (simp add: fill_ok_def set_dynamic_slots)
  show "int (length (of_slot CANDIDATE_NOTE sel)) \<le> max (ta_candidate_cap_per_run (tier_a cfg)) 0"
    using other [of CANDIDATE_NOTE] pld(1,5) by (simp add: fill_ok_def set_dynamic_slots)
qed

section \<open>Independence of the order of the input\<close>

text \<open>Candidates that agree in score and identity are one candidate, so \<open>better\<close> is total on them.\<close>

definition consistent :: "candidate set \<Rightarrow> bool" where
  "consistent C \<longleftrightarrow> (\<forall>c\<in>C. \<forall>d\<in>C. cd_memory_id c = cd_memory_id d \<longrightarrow> cd_score c = cd_score d \<longrightarrow> c = d)"

lemma collapse_set:
  assumes "consistent (set cs)"
  shows "set (collapse key cs) = {c \<in> set cs. \<forall>d\<in>set cs. key d = key c \<longrightarrow> \<not> better d c}"
proof -
  have "c \<in> set (collapse key cs)" if c: "c \<in> set cs" "\<forall>d\<in>set cs. key d = key c \<longrightarrow> \<not> better d c" for c
  proof -
    obtain e where e: "e \<in> set (collapse key cs)" "key e = key c" using collapse_covers [OF c(1)] by blast
    have e': "e \<in> set cs" "\<forall>d\<in>set cs. key d = key e \<longrightarrow> \<not> better d e" using collapse_mem [OF e(1)] by blast+
    have "c = e" using better_linear [of c e] c e e' assms unfolding consistent_def by metis
    then show ?thesis using e by simp
  qed
  then show ?thesis using collapse_mem by blast
qed

lemma consistent_subset: "consistent C \<Longrightarrow> D \<subseteq> C \<Longrightarrow> consistent D"
  unfolding consistent_def by blast

lemma dedup_mset:
  assumes "consistent (set cs)" "set cs' = set cs"
  shows "mset (dedup cs') = mset (dedup cs)"
proof -
  have one: "set (collapse cd_memory_id cs') = set (collapse cd_memory_id cs)" using assms by (simp add: collapse_set)
  have "consistent (set (collapse cd_memory_id cs))" using consistent_subset [OF assms(1) collapse_subset] .
  then have "set (dedup cs') = set (dedup cs)" using one by (simp add: dedup_def collapse_set)
  moreover have "distinct (dedup cs)" for cs using dedup_distinct(1) [of cs] by (simp add: distinct_map)
  ultimately show ?thesis by (simp add: set_eq_iff_mset_eq_distinct)
qed

lemma pack_mset:
  assumes "mset xs = mset ys" "distinct (map cd_memory_id xs)"
  shows "pack xs cap mc = pack ys cap mc"
proof -
  have "inj_on score_key (set xs)" using assms(2) by (auto simp: distinct_map inj_on_def score_key_def)
  moreover have "mset xs = mset (sort_key score_key ys)" using assms(1) by simp
  ultimately have "sort_key score_key xs = sort_key score_key ys"
    by (intro sort_key_inj_key_eq sorted_sort_key)
  then show ?thesis by (simp add: pack_def)
qed

lemma select_mset:
  assumes m: "mset (dedup cs) = mset (dedup cs')"
  shows "select cfg cs = select cfg cs'"
proof -
  have pk: "pack (filter p (dedup cs)) cap mc = pack (filter p (dedup cs')) cap mc" for p cap mc
    using m dedup_distinct(2) [of cs] by (intro pack_mset) (simp_all add: mset_filter distinct_map_filter)
  have "fill_slot cfg (dedup cs) = fill_slot cfg (dedup cs')"
    by (intro ext) (simp add: fill_slot_def pk)
  then show ?thesis by (simp add: select_def pk filter_filter Let_def)
qed

section \<open>The assembled context\<close>

text \<open>What \<open>Candidate.__post_init__\<close> guarantees.\<close>

definition wf_candidate :: "candidate \<Rightarrow> bool" where
  "wf_candidate c \<longleftrightarrow> 0 \<le> cd_tokens c \<and> strip_cp (cd_text c) \<noteq> [] \<and> cd_dedup_key c \<noteq> []"

lemma mk_candidate_wf: "mk_candidate s mid mt txt tk sc key = ok c \<Longrightarrow> wf_candidate c"
  by (auto simp: mk_candidate_def wf_candidate_def split: if_splits pyfloat.splits)

lemma wf_tokens: "\<forall>c\<in>set cs. wf_candidate c \<Longrightarrow> \<forall>c\<in>set cs. 0 \<le> cd_tokens c"
  by (simp add: wf_candidate_def)

definition slot_tokens :: "slot \<Rightarrow> assembled_context \<Rightarrow> int" where
  "slot_tokens s ax = sum_list (map cs_tokens (filter (\<lambda>x. cs_slot x = s) (ax_slots ax)))"

definition selection :: "effective_config \<Rightarrow> candidate list \<Rightarrow> candidate list" where
  "selection cfg cs = fst (select cfg cs)"

lemma assemble_slots:
  "ax_slots (assemble cfg cs) = map (\<lambda>c. \<lparr>cs_slot = cd_slot c, cs_memory_id = Some (memory_value (cd_memory_id c)),
     cs_tokens = cd_tokens c, cs_text = cd_text c\<rparr>) (selection cfg cs)"
  "ax_total_tokens (assemble cfg cs) = snd (select cfg cs)"
  by (simp_all add: assemble_def selection_def split_beta Let_def)

lemma assemble_slot_tokens: "slot_tokens s (assemble cfg cs) = toks (of_slot s (selection cfg cs))"
  by (simp add: slot_tokens_def assemble_slots toks_def of_slot_def filter_map comp_def)

lemma assemble_notes: "length (filter (\<lambda>x. cs_slot x = s) (ax_slots (assemble cfg cs))) = length (of_slot s (selection cfg cs))"
  by (simp add: assemble_slots of_slot_def filter_map comp_def)

text \<open>C16. Token budgets of the context \<open>assemble\<close> returns, for any configuration (overrides included) and any
  constructed candidates: the reported total is the sum over the slots and never exceeds \<open>total_tokens\<close>, the
  static prefix stays within \<open>static_prefix\<close>, every dynamic slot within its cap (0 when the cap is missing),
  and the candidate notes within \<open>candidate_cap_per_run\<close>; a negative setting counts as 0.\<close>

theorem assemble_within_budget:
  assumes "\<forall>c\<in>set cs. wf_candidate c"
  shows "ax_total_tokens (assemble cfg cs) = sum_list (map cs_tokens (ax_slots (assemble cfg cs))) \<and>
    ax_total_tokens (assemble cfg cs) \<le> max (bc_total_tokens (budget cfg)) 0 \<and>
    slot_tokens STATIC_PREFIX (assemble cfg cs) \<le> max (bc_static_prefix (budget cfg)) 0 \<and>
    (\<forall>s. s \<noteq> STATIC_PREFIX \<longrightarrow> slot_tokens s (assemble cfg cs) \<le> max (slot_cap cfg s) 0) \<and>
    int (length (filter (\<lambda>x. cs_slot x = CANDIDATE_NOTE) (ax_slots (assemble cfg cs)))) \<le> max (ta_candidate_cap_per_run (tier_a cfg)) 0"
proof -
  have sel: "select cfg cs = (selection cfg cs, snd (select cfg cs))" by (simp add: selection_def)
  note caps = select_caps [OF wf_tokens [OF assms] sel]
  have "snd (select cfg cs) = sum_list (map cs_tokens (ax_slots (assemble cfg cs)))"
    using caps(1) by (simp add: assemble_slots toks_def comp_def)
  then show ?thesis unfolding assemble_slot_tokens assemble_notes assemble_slots(2) using caps by auto
qed

lemma dropped_ids:
  "set (ax_dropped_memory_ids (assemble cfg cs)) = cd_memory_id ` set cs - cd_memory_id ` set (selection cfg cs)"
  "sorted (ax_dropped_memory_ids (assemble cfg cs))" "distinct (ax_dropped_memory_ids (assemble cfg cs))"
proof -
  have *: "ax_dropped_memory_ids (assemble cfg cs) =
    sorted_list_of_set (set (map cd_memory_id (filter (\<lambda>c. cd_memory_id c \<notin> cd_memory_id ` set (selection cfg cs)) cs)))"
    by (simp add: assemble_def selection_def split_beta Let_def)
  show "set (ax_dropped_memory_ids (assemble cfg cs)) = cd_memory_id ` set cs - cd_memory_id ` set (selection cfg cs)"
    unfolding * by auto
  show "sorted (ax_dropped_memory_ids (assemble cfg cs))" "distinct (ax_dropped_memory_ids (assemble cfg cs))"
    unfolding * by (rule sorted_sorted_list_of_set distinct_sorted_list_of_set)+
qed

text \<open>C17. Accounting and placement: no memory is rendered twice, every slot entry is an input candidate's, the
  slots come in placement order (static prefix first), and \<open>dropped_memory_ids\<close> lists, in order and once each,
  exactly the input memories that are absent from the slots, so no exclusion goes unreported.\<close>

theorem assemble_accounting:
  assumes "\<forall>c\<in>set cs. wf_candidate c"
  shows "distinct (map cs_memory_id (ax_slots (assemble cfg cs))) \<and>
    (\<forall>x\<in>set (ax_slots (assemble cfg cs)). \<exists>c\<in>set cs. cs_slot x = cd_slot c \<and> cs_memory_id x = Some (memory_value (cd_memory_id c)) \<and>
       cs_tokens x = cd_tokens c \<and> cs_text x = cd_text c) \<and>
    sorted (map (slot_rank \<circ> cs_slot) (ax_slots (assemble cfg cs))) \<and>
    (Some ` memory_value ` cd_memory_id ` set cs) =
      set (map cs_memory_id (ax_slots (assemble cfg cs))) \<union> Some ` memory_value ` set (ax_dropped_memory_ids (assemble cfg cs)) \<and>
    set (map cs_memory_id (ax_slots (assemble cfg cs))) \<inter> Some ` memory_value ` set (ax_dropped_memory_ids (assemble cfg cs)) = {} \<and>
    sorted (ax_dropped_memory_ids (assemble cfg cs)) \<and> distinct (ax_dropped_memory_ids (assemble cfg cs))"
proof -
  have sel: "select cfg cs = (selection cfg cs, snd (select cfg cs))" by (simp add: selection_def)
  note ss = select_set [OF wf_tokens [OF assms] sel]
  have sub: "set (selection cfg cs) \<subseteq> set cs" using ss(1) dedup_subset [of cs] by blast
  have inj: "inj memory_value" by (rule injI) (metis memory_id.expand)
  have ids: "map cs_memory_id (ax_slots (assemble cfg cs)) = map Some (map memory_value (map cd_memory_id (selection cfg cs)))"
    by (simp add: assemble_slots)
  have "distinct (map cs_memory_id (ax_slots (assemble cfg cs)))"
    unfolding ids using ss(2) inj by (simp add: distinct_map inj_on_def inj_def del: map_map)
  moreover have "sorted (map (slot_rank \<circ> cs_slot) (ax_slots (assemble cfg cs)))"
    using ss(4) by (simp add: assemble_slots comp_def)
  moreover have "\<forall>x\<in>set (ax_slots (assemble cfg cs)). \<exists>c\<in>set cs. cs_slot x = cd_slot c \<and>
       cs_memory_id x = Some (memory_value (cd_memory_id c)) \<and> cs_tokens x = cd_tokens c \<and> cs_text x = cd_text c"
    using sub by (auto simp: assemble_slots)
  moreover have "(Some ` memory_value ` cd_memory_id ` set cs) =
      set (map cs_memory_id (ax_slots (assemble cfg cs))) \<union> Some ` memory_value ` set (ax_dropped_memory_ids (assemble cfg cs))"
  proof -
    have "cd_memory_id ` set cs = cd_memory_id ` set (selection cfg cs) \<union> (cd_memory_id ` set cs - cd_memory_id ` set (selection cfg cs))"
      using sub by auto
    then have "Some ` memory_value ` cd_memory_id ` set cs = Some ` memory_value ` cd_memory_id ` set (selection cfg cs) \<union>
      Some ` memory_value ` (cd_memory_id ` set cs - cd_memory_id ` set (selection cfg cs))" by (metis image_Un)
    then show ?thesis unfolding dropped_ids(1) ids by (simp only: set_map)
  qed
  moreover have "set (map cs_memory_id (ax_slots (assemble cfg cs))) \<inter> Some ` memory_value ` set (ax_dropped_memory_ids (assemble cfg cs)) = {}"
  proof -
    have inj': "inj (\<lambda>i. Some (memory_value i))" using inj by (simp add: inj_def)
    have "set (map cs_memory_id (ax_slots (assemble cfg cs))) = (\<lambda>i. Some (memory_value i)) ` cd_memory_id ` set (selection cfg cs)"
      unfolding ids by (simp add: image_image)
    moreover have "Some ` memory_value ` set (ax_dropped_memory_ids (assemble cfg cs)) = (\<lambda>i. Some (memory_value i)) `
      (cd_memory_id ` set cs - cd_memory_id ` set (selection cfg cs))"
      unfolding dropped_ids(1) by (simp only: image_image)
    ultimately show ?thesis by (simp only: image_Int [OF inj', symmetric]) blast
  qed
  ultimately show ?thesis using dropped_ids(2,3) [of cfg cs] by (intro conjI) assumption+
qed

text \<open>C37. Determinism: when no memory is proposed twice with the same score and different content, the assembled
  context depends on the set of candidates alone, not on the order (or multiplicity) the arms list them in.\<close>

theorem assemble_order_independent:
  assumes "consistent (set cs)" "set cs' = set cs"
  shows "assemble cfg cs' = assemble cfg cs"
proof -
  have "select cfg cs' = select cfg cs" using select_mset [OF dedup_mset [OF assms]] .
  moreover have "cd_memory_id ` (set cs' \<inter> A) = cd_memory_id ` (set cs \<inter> A)" for A using assms(2) by simp
  ultimately show ?thesis using assms(2) by (simp add: assemble_def split_beta Let_def)
qed

section \<open>Witnesses\<close>

definition slot_candidate :: "slot \<Rightarrow> uuid \<Rightarrow> mem_type \<Rightarrow> int \<Rightarrow> real \<Rightarrow> string \<Rightarrow> candidate" where
  "slot_candidate s i mt tk sc key =
     \<lparr>cd_slot = s, cd_memory_id = MemoryId i, cd_mem_type = mt, cd_text = [114, 101], cd_tokens = tk, cd_score = sc, cd_dedup_key = key\<rparr>"

definition sample_candidates :: "candidate list" where
  "sample_candidates = [slot_candidate STATIC_PREFIX 1 PREFERENCE 120 (1/2) ''k1'', slot_candidate FACT 2 LESSON 200 (3/4) ''k2'',
     slot_candidate FACT 3 LESSON 100 (1/4) ''k3'', slot_candidate CANDIDATE_NOTE 4 LESSON 60 (1/3) ''k2'']"

lemmas sample_candidate_simps = sample_candidates_def slot_candidate_def

lemma sample_candidates_wf: "\<forall>c\<in>set sample_candidates. wf_candidate c"
  by (simp add: sample_candidate_simps wf_candidate_def strip_cp_def is_space_cp_def)

lemma sample_candidates_consistent: "consistent (set sample_candidates)"
  by (simp add: sample_candidate_simps consistent_def)

lemma default_budget:
  "bc_total_tokens (budget default_config) = 1200" "slot_cap default_config FACT = 250"
  by (simp_all add: default_config_def slot_cap_def)

theorem assemble_within_budget_witness:
  "list_all wf_candidate sample_candidates \<and> ax_total_tokens (assemble default_config sample_candidates) \<le> 1200 \<and>
   slot_tokens FACT (assemble default_config sample_candidates) \<le> 250"
  using assemble_within_budget [OF sample_candidates_wf, of default_config] sample_candidates_wf
  unfolding default_budget by (auto simp: default_budget list_all_iff dest: spec [of _ FACT])

theorem assemble_accounting_witness:
  "list_all wf_candidate sample_candidates \<and> distinct (map cs_memory_id (ax_slots (assemble default_config sample_candidates))) \<and>
   sorted (ax_dropped_memory_ids (assemble default_config sample_candidates))"
  using assemble_accounting [OF sample_candidates_wf, of default_config] sample_candidates_wf unfolding list_all_iff by blast

theorem assemble_order_independent_witness:
  "consistent (set sample_candidates) \<and> assemble default_config (rev sample_candidates) = assemble default_config sample_candidates"
  using assemble_order_independent [OF sample_candidates_consistent, of "rev sample_candidates" default_config]
    sample_candidates_consistent by simp

text \<open>A tie the deduplication resolves by arrival: two proposals of one memory with equal scores for two slots
  are distinct candidates, neither is better, and the first one listed survives, so reversing the input changes
  the assembled context although both inputs hold the same constructed candidates.\<close>

theorem assemble_tie_depends_on_order:
  "\<exists>cs. (\<forall>c\<in>set cs. wf_candidate c) \<and> assemble default_config (rev cs) \<noteq> assemble default_config cs"
proof -
  let ?a = "slot_candidate FACT 7 LESSON 10 (1/2) ''k''" and ?b = "slot_candidate EXEMPLAR 7 LESSON 10 (1/2) ''k''"
  have wf: "\<forall>c\<in>set [?a, ?b]. wf_candidate c"
    by (simp add: slot_candidate_def wf_candidate_def strip_cp_def is_space_cp_def)
  have "map cs_slot (ax_slots (assemble default_config [?a, ?b])) = [FACT]"
    "map cs_slot (ax_slots (assemble default_config [?b, ?a])) = [EXEMPLAR]"
    by (simp_all add: assemble_def select_def dedup_def collapse_def collapse_step_def better_def slot_candidate_def default_config_def
      pack_def pack_step_def score_key_def clamp_def fill_slot_def DYNAMIC_SLOTS_def SLOT_ORDER_def Let_def)
  then have "assemble default_config (rev [?a, ?b]) \<noteq> assemble default_config [?a, ?b]" by auto
  then show ?thesis using wf by blast
qed

end
