(* ===== verification/Abstention.thy ===== *)
theory Abstention
  imports Config
begin

text \<open>
  Calibration and abstention, \<open>src/src/tracebed/hotpath/calibration.py\<close> and
  \<open>src/src/tracebed/hotpath/abstention.py\<close>. A signal arrives as a \<open>pyfloat\<close> and is checked by the constructor
  it goes through; past the constructors every number is a finite real. Rounding of floating-point arithmetic is
  not modelled.
\<close>

section \<open>Calibration\<close>

definition bm25_saturate :: "pyfloat \<Rightarrow> pyfloat \<Rightarrow> real res" where
  "bm25_saturate raw_bm25 k =
     (case raw_bm25 of
        Fin x \<Rightarrow> if x < 0 then raise ValueError
                 else (case k of Fin y \<Rightarrow> if y \<le> 0 then raise ValueError else ok (x / (x + y)) | _ \<Rightarrow> raise ValueError)
      | _ \<Rightarrow> raise ValueError)"

definition recency_weight :: "pyfloat \<Rightarrow> pyfloat \<Rightarrow> real res" where
  "recency_weight age_days half_life_days =
     (case age_days of
        Fin a \<Rightarrow> if a < 0 then raise ValueError
                 else (case half_life_days of Fin h \<Rightarrow> if h \<le> 0 then raise ValueError else ok ((1 / 2) powr (a / h)) | _ \<Rightarrow> raise ValueError)
      | _ \<Rightarrow> raise ValueError)"

record calibrated_signals =
  sig_cos_sim :: real
  sig_q_value :: real
  sig_age_days :: real
  sig_validity :: real

definition mk_calibrated_signals :: "pyfloat \<Rightarrow> pyfloat \<Rightarrow> pyfloat \<Rightarrow> pyfloat \<Rightarrow> calibrated_signals res" where
  "mk_calibrated_signals cos_sim q_value age_days validity =
     (case (cos_sim, q_value, validity, age_days) of
        (Fin c, Fin q, Fin v, Fin a) \<Rightarrow>
          if \<not> (- 1 \<le> c \<and> c \<le> 1) then raise ValueError
          else if \<not> (0 \<le> q \<and> q \<le> 1) then raise ValueError
          else if \<not> (0 \<le> v \<and> v \<le> 1) then raise ValueError
          else if a < 0 then raise ValueError
          else ok \<lparr>sig_cos_sim = c, sig_q_value = q, sig_age_days = a, sig_validity = v\<rparr>
      | _ \<Rightarrow> raise ValueError)"

definition calibrated_score :: "calibrated_signals \<Rightarrow> score_config \<Rightarrow> real res" where
  "calibrated_score s cfg =
     bind_res (recency_weight (Fin (sig_age_days s)) (Fin (real_of_int (recency_half_life_days cfg)))) (\<lambda>recency.
       ok (w_sim cfg * sig_cos_sim s + w_q cfg * sig_q_value s + w_recency cfg * recency + w_validity cfg * sig_validity s))"

section \<open>Abstention\<close>

record rarity_evidence =
  re_shared_term_doc_freq_pct :: "real list"
  re_corpus_doc_count :: int

fun finite_pcts :: "pyfloat list \<Rightarrow> real list res" where
  "finite_pcts [] = ok []"
| "finite_pcts (p # ps) =
     (case p of
        Fin x \<Rightarrow> if 0 \<le> x \<and> x \<le> 100 then bind_res (finite_pcts ps) (\<lambda>xs. ok (x # xs)) else raise ValueError
      | _ \<Rightarrow> raise ValueError)"

definition mk_rarity_evidence :: "pyfloat list \<Rightarrow> int \<Rightarrow> rarity_evidence res" where
  "mk_rarity_evidence pcts docs =
     (if docs < 0 then raise ValueError
      else bind_res (finite_pcts pcts) (\<lambda>xs. ok \<lparr>re_shared_term_doc_freq_pct = xs, re_corpus_doc_count = docs\<rparr>))"

record candidate_signals =
  csig_cos_sim :: "real option"
  csig_bm25_raw :: "real option"
  csig_rarity :: rarity_evidence

definition mk_candidate_signals :: "pyfloat option \<Rightarrow> pyfloat option \<Rightarrow> rarity_evidence \<Rightarrow> candidate_signals res" where
  "mk_candidate_signals cos_sim bm25_raw rarity =
     bind_res (case cos_sim of None \<Rightarrow> ok None
               | Some f \<Rightarrow> (case f of Fin c \<Rightarrow> if - 1 \<le> c \<and> c \<le> 1 then ok (Some c) else raise ValueError | _ \<Rightarrow> raise ValueError)) (\<lambda>c.
     bind_res (case bm25_raw of None \<Rightarrow> ok None
               | Some f \<Rightarrow> (case f of Fin b \<Rightarrow> if b < 0 then raise ValueError else ok (Some b) | _ \<Rightarrow> raise ValueError)) (\<lambda>b.
       if c = None \<and> b = None then raise ValueError
       else ok \<lparr>csig_cos_sim = c, csig_bm25_raw = b, csig_rarity = rarity\<rparr>))"

record abstention_decision =
  ad_inject :: bool
  ad_outcome_code :: "outcome_code option"
  ad_bm25_norm :: "real option"
  ad_rare_shared_term_count :: int

definition rare_shared_term_count :: "rarity_evidence \<Rightarrow> abstention_config \<Rightarrow> int" where
  "rare_shared_term_count r cfg = int (length (filter (\<lambda>pct. pct \<le> ac_rarity_max_df_pct cfg) (re_shared_term_doc_freq_pct r)))"

definition rarity_gate_passes :: "rarity_evidence \<Rightarrow> abstention_config \<Rightarrow> bool" where
  "rarity_gate_passes r cfg \<longleftrightarrow>
     (if re_corpus_doc_count r < ac_rarity_min_corpus_docs cfg then False
      else rare_shared_term_count r cfg \<ge> ac_rarity_min_shared_terms cfg)"

definition abstention_decide :: "candidate_signals \<Rightarrow> abstention_config \<Rightarrow> abstention_decision res" where
  "abstention_decide s cfg =
     bind_res (case csig_bm25_raw s of None \<Rightarrow> ok None | Some b \<Rightarrow> bind_res (bm25_saturate (Fin b) (ac_bm25_sat_k cfg)) (\<lambda>x. ok (Some x))) (\<lambda>bm25_norm.
     let shared_rare = rare_shared_term_count (csig_rarity s) cfg;
         cold_start = re_corpus_doc_count (csig_rarity s) < ac_rarity_min_corpus_docs cfg;
         decision = (\<lambda>inject code. \<lparr>ad_inject = inject, ad_outcome_code = code, ad_bm25_norm = bm25_norm, ad_rare_shared_term_count = shared_rare\<rparr>)
     in if cold_start \<or> shared_rare < ac_rarity_min_shared_terms cfg then ok (decision False (Some ABSTAINED_RARITY))
        else if (case csig_cos_sim s of None \<Rightarrow> False | Some c \<Rightarrow> c < ac_cos_threshold cfg) then ok (decision False (Some ABSTAINED_THRESHOLD))
        else if (case bm25_norm of None \<Rightarrow> False | Some x \<Rightarrow> x < ac_bm25_norm_threshold cfg) then ok (decision False (Some ABSTAINED_THRESHOLD))
        else ok (decision True None))"

definition measured_abstention_rate :: "abstention_decision list \<Rightarrow> real res" where
  "measured_abstention_rate ds =
     (if ds = [] then raise ValueError
      else ok (100 * real (length (filter (\<lambda>d. \<not> ad_inject d) ds)) / real (length ds)))"

section \<open>Calibration lemmas\<close>

lemma saturate_eq: "0 \<le> x \<Longrightarrow> 0 < y \<Longrightarrow> bm25_saturate (Fin x) (Fin y) = ok (x / (x + y))"
  by (simp add: bm25_saturate_def)

lemma saturate_ok: "bm25_saturate r k = ok s \<longleftrightarrow> (\<exists>x y. r = Fin x \<and> k = Fin y \<and> 0 \<le> x \<and> 0 < y \<and> s = x / (x + y))"
  by (auto simp: bm25_saturate_def split: pyfloat.splits if_splits)

lemma saturate_mono: "0 \<le> x \<Longrightarrow> x \<le> x' \<Longrightarrow> 0 < y \<Longrightarrow> x / (x + y) \<le> x' / (x' + y)" for x x' y :: real
  by (simp add: frac_le_eq divide_le_cancel pos_divide_le_eq pos_le_divide_eq field_simps)

lemma saturate_bounds: "0 \<le> x \<Longrightarrow> 0 < y \<Longrightarrow> 0 \<le> x / (x + y) \<and> x / (x + y) < 1" for x y :: real
  by (simp add: divide_less_eq)

lemma recency_eq: "0 \<le> a \<Longrightarrow> 0 < h \<Longrightarrow> recency_weight (Fin a) (Fin h) = ok ((1 / 2) powr (a / h))"
  by (simp add: recency_weight_def)

lemma recency_bounds: "0 \<le> a \<Longrightarrow> 0 < h \<Longrightarrow> 0 < (1 / 2 :: real) powr (a / h) \<and> (1 / 2 :: real) powr (a / h) \<le> 1"
  using powr_le1 [of "a / h" "1 / 2 :: real"] by simp

lemma recency_antimono: "a \<le> b \<Longrightarrow> 0 < h \<Longrightarrow> (1 / 2 :: real) powr (b / h) \<le> (1 / 2) powr (a / h)"
  by (simp add: powr_mono' divide_right_mono)

text \<open>What the constructor guarantees.\<close>

definition wf_signals :: "calibrated_signals \<Rightarrow> bool" where
  "wf_signals s \<longleftrightarrow> - 1 \<le> sig_cos_sim s \<and> sig_cos_sim s \<le> 1 \<and> 0 \<le> sig_q_value s \<and> sig_q_value s \<le> 1 \<and>
     0 \<le> sig_validity s \<and> sig_validity s \<le> 1 \<and> 0 \<le> sig_age_days s"

lemma mk_calibrated_signals_wf: "mk_calibrated_signals c q a v = ok s \<Longrightarrow> wf_signals s"
  by (auto simp: mk_calibrated_signals_def wf_signals_def split: pyfloat.splits if_splits)

text \<open>Positive weights are what \<open>ScoreConfig\<close> ships; the bounds need them non-negative.\<close>

definition wf_weights :: "score_config \<Rightarrow> bool" where
  "wf_weights cfg \<longleftrightarrow> 0 \<le> w_sim cfg \<and> 0 \<le> w_q cfg \<and> 0 \<le> w_recency cfg \<and> 0 \<le> w_validity cfg \<and> 0 < recency_half_life_days cfg"

lemma score_eq: "wf_signals s \<Longrightarrow> wf_weights cfg \<Longrightarrow> calibrated_score s cfg =
  ok (w_sim cfg * sig_cos_sim s + w_q cfg * sig_q_value s + w_recency cfg * (1 / 2) powr (sig_age_days s / real_of_int (recency_half_life_days cfg)) +
      w_validity cfg * sig_validity s)"
  by (simp add: calibrated_score_def recency_eq wf_signals_def wf_weights_def)

definition score_le :: "calibrated_signals \<Rightarrow> calibrated_signals \<Rightarrow> bool" where
  "score_le s t \<longleftrightarrow> sig_cos_sim s \<le> sig_cos_sim t \<and> sig_q_value s \<le> sig_q_value t \<and> sig_age_days t \<le> sig_age_days s \<and>
     sig_validity s \<le> sig_validity t"

section \<open>Abstention lemmas\<close>

definition wf_candidate_signals :: "candidate_signals \<Rightarrow> bool" where
  "wf_candidate_signals s \<longleftrightarrow> (\<forall>c. csig_cos_sim s = Some c \<longrightarrow> - 1 \<le> c \<and> c \<le> 1) \<and> (\<forall>b. csig_bm25_raw s = Some b \<longrightarrow> 0 \<le> b) \<and>
     \<not> (csig_cos_sim s = None \<and> csig_bm25_raw s = None)"

lemma mk_candidate_signals_wf: "mk_candidate_signals c b r = ok s \<Longrightarrow> wf_candidate_signals s"
  by (auto simp: mk_candidate_signals_def wf_candidate_signals_def res_simps split: option.splits pyfloat.splits if_splits)

text \<open>Every gate clear: the condition under which a candidate is injected.\<close>

definition clears_gates :: "candidate_signals \<Rightarrow> abstention_config \<Rightarrow> real \<Rightarrow> bool" where
  "clears_gates s cfg k \<longleftrightarrow> rarity_gate_passes (csig_rarity s) cfg \<and>
     (\<forall>c. csig_cos_sim s = Some c \<longrightarrow> ac_cos_threshold cfg \<le> c) \<and>
     (\<forall>b. csig_bm25_raw s = Some b \<longrightarrow> ac_bm25_norm_threshold cfg \<le> b / (b + k))"

lemma decide_cases:
  assumes "wf_candidate_signals s" "ac_bm25_sat_k cfg = Fin k" "0 < k"
  shows "\<exists>d. abstention_decide s cfg = ok d \<and> ad_inject d = clears_gates s cfg k \<and>
     ad_outcome_code d = (if clears_gates s cfg k then None else if rarity_gate_passes (csig_rarity s) cfg then Some ABSTAINED_THRESHOLD else Some ABSTAINED_RARITY) \<and>
     ad_bm25_norm d = map_option (\<lambda>b. b / (b + k)) (csig_bm25_raw s)"
proof -
  have n: "(case csig_bm25_raw s of None \<Rightarrow> ok None | Some b \<Rightarrow> bind_res (bm25_saturate (Fin b) (ac_bm25_sat_k cfg)) (\<lambda>x. ok (Some x)))
    = ok (map_option (\<lambda>b. b / (b + k)) (csig_bm25_raw s))"
    using assms by (auto simp: wf_candidate_signals_def saturate_eq split: option.splits)
  show ?thesis unfolding abstention_decide_def n
    by (cases "csig_cos_sim s"; cases "csig_bm25_raw s") (auto simp: Let_def clears_gates_def rarity_gate_passes_def)
qed

section \<open>Properties\<close>

text \<open>C22. The injection decision: for constructed signals and a valid saturation constant the three gates return, and
  a candidate is injected exactly when the corpus is large enough, enough shared terms are rare, and every arm that
  evaluated the candidate clears its threshold; an absent arm is skipped, never read as a number. The outcome code
  is missing exactly on injection and names the rarity gate exactly when that gate fails.\<close>

theorem abstention_decides:
  assumes "wf_candidate_signals s" "ac_bm25_sat_k cfg = Fin k" "0 < k"
  shows "\<exists>d. abstention_decide s cfg = ok d \<and>
     (ad_inject d \<longleftrightarrow> ac_rarity_min_corpus_docs cfg \<le> re_corpus_doc_count (csig_rarity s) \<and>
        ac_rarity_min_shared_terms cfg \<le> rare_shared_term_count (csig_rarity s) cfg \<and>
        (\<forall>c. csig_cos_sim s = Some c \<longrightarrow> ac_cos_threshold cfg \<le> c) \<and>
        (\<forall>b. csig_bm25_raw s = Some b \<longrightarrow> ac_bm25_norm_threshold cfg \<le> b / (b + k))) \<and>
     (ad_outcome_code d = None \<longleftrightarrow> ad_inject d) \<and>
     (ad_outcome_code d = Some ABSTAINED_RARITY \<longleftrightarrow> \<not> rarity_gate_passes (csig_rarity s) cfg)"
proof -
  obtain d where "abstention_decide s cfg = ok d" "ad_inject d = clears_gates s cfg k"
    "ad_outcome_code d = (if clears_gates s cfg k then None else if rarity_gate_passes (csig_rarity s) cfg then Some ABSTAINED_THRESHOLD else Some ABSTAINED_RARITY)"
    using decide_cases [OF assms] by blast
  then show ?thesis by (intro exI [of _ d]) (auto simp: clears_gates_def rarity_gate_passes_def split: if_splits)
qed

text \<open>Evidence that is at least as good in every respect.\<close>

definition signals_le :: "candidate_signals \<Rightarrow> candidate_signals \<Rightarrow> bool" where
  "signals_le s t \<longleftrightarrow> rel_option (\<le>) (csig_cos_sim s) (csig_cos_sim t) \<and> rel_option (\<le>) (csig_bm25_raw s) (csig_bm25_raw t) \<and>
     re_corpus_doc_count (csig_rarity s) \<le> re_corpus_doc_count (csig_rarity t) \<and>
     list_all2 (\<ge>) (re_shared_term_doc_freq_pct (csig_rarity s)) (re_shared_term_doc_freq_pct (csig_rarity t))"

lemma rare_count_mono:
  "list_all2 (\<ge>) xs ys \<Longrightarrow> length (filter (\<lambda>p. p \<le> m) xs) \<le> length (filter (\<lambda>p. p \<le> m) ys)" for m :: real
  by (induction xs ys rule: list_all2_induct) auto



text \<open>Malformed evidence is refused at construction: signals are built exactly from an absent or in-range finite
  cosine and an absent or non-negative finite BM25 score, not both absent; NaN and the infinities never reach a
  threshold comparison, where they would pass it.\<close>

theorem signals_refuse_malformed:
  "(\<exists>s. mk_candidate_signals c b r = ok s) \<longleftrightarrow>
     (c = None \<or> (\<exists>x. c = Some (Fin x) \<and> - 1 \<le> x \<and> x \<le> 1)) \<and> (b = None \<or> (\<exists>x. b = Some (Fin x) \<and> 0 \<le> x)) \<and>
     \<not> (c = None \<and> b = None)"
  by (auto simp: mk_candidate_signals_def split: option.splits pyfloat.splits)

section \<open>Witnesses\<close>

definition sample_rarity :: rarity_evidence where
  "sample_rarity = \<lparr>re_shared_term_doc_freq_pct = [1, 2, 50], re_corpus_doc_count = 300\<rparr>"

definition sample_signals :: "real option \<Rightarrow> real option \<Rightarrow> candidate_signals" where
  "sample_signals c b = \<lparr>csig_cos_sim = c, csig_bm25_raw = b, csig_rarity = sample_rarity\<rparr>"

lemmas sample_abstention = sample_signals_def sample_rarity_def default_config_def rare_shared_term_count_def
  wf_candidate_signals_def rarity_gate_passes_def

theorem abstention_decides_witness:
  "\<exists>d. abstention_decide (sample_signals None (Some 20)) (abstention default_config) = ok d \<and> ad_inject d"
proof -
  let ?s = "sample_signals None (Some 20)" and ?c = "abstention default_config"
  have "wf_candidate_signals ?s" "ac_bm25_sat_k ?c = Fin 10" by (simp_all add: sample_abstention)
  then obtain d where "abstention_decide ?s ?c = ok d"
    "ad_inject d \<longleftrightarrow> ac_rarity_min_corpus_docs ?c \<le> re_corpus_doc_count (csig_rarity ?s) \<and>
        ac_rarity_min_shared_terms ?c \<le> rare_shared_term_count (csig_rarity ?s) ?c \<and>
        (\<forall>c. csig_cos_sim ?s = Some c \<longrightarrow> ac_cos_threshold ?c \<le> c) \<and>
        (\<forall>b. csig_bm25_raw ?s = Some b \<longrightarrow> ac_bm25_norm_threshold ?c \<le> b / (b + 10))"
    using abstention_decides [of ?s ?c 10] by auto
  then show ?thesis by (simp add: sample_abstention)
qed


definition sample_calibrated :: calibrated_signals where
  "sample_calibrated = \<lparr>sig_cos_sim = 1 / 2, sig_q_value = 1 / 2, sig_age_days = 14, sig_validity = 1\<rparr>"


end
