(* ===== verification/Fusion.thy ===== *)
theory Fusion
  imports Config "HOL-Library.Product_Lexorder" "HOL-Library.Multiset"
begin

text \<open>
  Reciprocal-rank fusion of the two search arms, \<open>src/src/tracebed/hotpath/fusion.py\<close>, on the \<open>ArmHit\<close> of
  \<open>stores/pg/search.py\<close>. Scores are reals (finite, no rounding). A dict comprehension over a list is the
  \<open>map_of\<close> of its reverse: the last entry of a key wins.
\<close>

section \<open>Definitions\<close>

record arm_hit =
  ah_memory_id :: memory_id
  ah_raw_score :: real
  ah_trust_tier :: trust_tier
  ah_status :: status

record arm_signal =
  as_raw_score :: real
  as_rank :: nat

definition mk_arm_signal :: "real \<Rightarrow> nat \<Rightarrow> arm_signal res" where
  "mk_arm_signal s r = (if r < 1 then raise ValueError else ok \<lparr>as_raw_score = s, as_rank = r\<rparr>)"

record fused_candidate =
  fc_memory_id :: memory_id
  fc_trust_tier :: trust_tier
  fc_status :: status
  fc_fused_rank :: nat
  fc_lexical :: "arm_signal option"
  fc_vector :: "arm_signal option"

definition fused_post_init :: "fused_candidate \<Rightarrow> fused_candidate res" where
  "fused_post_init f =
     (if fc_fused_rank f < 1 then raise ValueError
      else if fc_lexical f = None \<and> fc_vector f = None then raise ValueError
      else ok f)"

definition by_id :: "arm_hit list \<Rightarrow> memory_id \<rightharpoonup> arm_hit" where
  "by_id hits = map_of (rev (map (\<lambda>h. (ah_memory_id h, h)) hits))"

definition hit_key :: "arm_hit \<Rightarrow> real \<times> memory_id" where
  "hit_key h = (- ah_raw_score h, ah_memory_id h)"

definition rank_within_arm :: "arm_hit list \<Rightarrow> memory_id \<rightharpoonup> nat" where
  "rank_within_arm hits =
     (let ordered = sort_key hit_key hits
      in map_of (rev (zip (map ah_memory_id ordered) [1..<Suc (length ordered)])))"

definition rrf_score :: "int \<Rightarrow> real \<Rightarrow> real \<Rightarrow> (memory_id \<rightharpoonup> nat) \<Rightarrow> (memory_id \<rightharpoonup> nat) \<Rightarrow> memory_id \<Rightarrow> real" where
  "rrf_score rrf_k weight_lexical weight_vector lexical_rank vector_rank i =
     (case lexical_rank i of None \<Rightarrow> 0 | Some r \<Rightarrow> weight_lexical / (real_of_int rrf_k + real r)) +
     (case vector_rank i of None \<Rightarrow> 0 | Some r \<Rightarrow> weight_vector / (real_of_int rrf_k + real r))"

definition signal_of :: "(memory_id \<rightharpoonup> arm_hit) \<Rightarrow> (memory_id \<rightharpoonup> nat) \<Rightarrow> memory_id \<Rightarrow> arm_signal option res" where
  "signal_of hits ranks i =
     (case hits i of
        None \<Rightarrow> ok None
      | Some h \<Rightarrow> (case ranks i of
                     None \<Rightarrow> raise KeyError
                   | Some r \<Rightarrow> bind_res (mk_arm_signal (ah_raw_score h) r) (\<lambda>s. ok (Some s))))"

definition fuse_entry :: "(memory_id \<rightharpoonup> arm_hit) \<Rightarrow> (memory_id \<rightharpoonup> arm_hit) \<Rightarrow> (memory_id \<rightharpoonup> nat) \<Rightarrow> (memory_id \<rightharpoonup> nat) \<Rightarrow> nat \<times> memory_id \<Rightarrow> fused_candidate res" where
  "fuse_entry lexical_by_id vector_by_id lexical_rank vector_rank e =
     (let (position, i) = e
      in case (case lexical_by_id i of Some h \<Rightarrow> Some h | None \<Rightarrow> vector_by_id i) of
           None \<Rightarrow> raise AssertionError
         | Some source \<Rightarrow>
             bind_res (signal_of lexical_by_id lexical_rank i) (\<lambda>lexical.
             bind_res (signal_of vector_by_id vector_rank i) (\<lambda>vector.
               fused_post_init \<lparr>fc_memory_id = i, fc_trust_tier = ah_trust_tier source, fc_status = ah_status source,
                 fc_fused_rank = position, fc_lexical = lexical, fc_vector = vector\<rparr>)))"

definition fuse :: "arm_hit list \<Rightarrow> arm_hit list \<Rightarrow> int \<Rightarrow> real \<Rightarrow> real \<Rightarrow> fused_candidate list res" where
  "fuse lexical_hits vector_hits rrf_k weight_lexical weight_vector =
     (if rrf_k \<le> 0 then raise ValueError
      else if weight_lexical < 0 \<or> weight_vector < 0 then raise ValueError
      else
        let lexical_rank = rank_within_arm lexical_hits;
            vector_rank = rank_within_arm vector_hits;
            all_ids = set (map ah_memory_id lexical_hits) \<union> set (map ah_memory_id vector_hits);
            scores = rrf_score rrf_k weight_lexical weight_vector lexical_rank vector_rank;
            ordered_ids = sort_key (\<lambda>i. (- scores i, i)) (sorted_list_of_set all_ids)
        in map_res (fuse_entry (by_id lexical_hits) (by_id vector_hits) lexical_rank vector_rank)
             (zip [1..<Suc (length ordered_ids)] ordered_ids))"

section \<open>Ranks\<close>

lemma by_id_None: "by_id hits i = None \<longleftrightarrow> i \<notin> ah_memory_id ` set hits"
  by (auto simp: by_id_def map_of_eq_None_iff image_image)

lemma by_id_Some: "by_id hits i = Some h \<Longrightarrow> h \<in> set hits \<and> ah_memory_id h = i"
  by (auto simp: by_id_def dest!: map_of_SomeD)

lemma rank_dom: "rank_within_arm hits i = None \<longleftrightarrow> i \<notin> ah_memory_id ` set hits"
proof -
  have "map fst (zip (map ah_memory_id (sort_key hit_key hits)) [1..<Suc (length (sort_key hit_key hits))]) = map ah_memory_id (sort_key hit_key hits)"
    by (simp del: upt_Suc)
  then have "fst ` set (zip (map ah_memory_id (sort_key hit_key hits)) [1..<Suc (length (sort_key hit_key hits))]) = ah_memory_id ` set hits"
    by (metis list.set_map set_sort)
  then show ?thesis by (simp add: rank_within_arm_def Let_def map_of_eq_None_iff del: upt_Suc)
qed

lemma rank_pos: "rank_within_arm hits i = Some r \<Longrightarrow> 1 \<le> r \<and> r \<le> length hits"
  by (auto simp: rank_within_arm_def Let_def simp del: upt_Suc dest!: map_of_SomeD set_zip_rightD)

text \<open>With distinct ids in the arm, the rank is one more than the position in the sorted arm.\<close>

lemma rank_nth:
  assumes "distinct (map ah_memory_id hits)" "j < length hits"
  shows "rank_within_arm hits (ah_memory_id (sort_key hit_key hits ! j)) = Some (Suc j)"
proof -
  let ?o = "sort_key hit_key hits" and ?z = "zip (map ah_memory_id (sort_key hit_key hits)) [1..<Suc (length hits)]"
  have d: "distinct (map fst ?z)" using assms(1) by (simp add: distinct_map del: upt_Suc)
  then have "distinct (map fst (rev ?z))" by (simp add: rev_map [symmetric] del: upt_Suc)
  moreover have "(ah_memory_id (?o ! j), Suc j) \<in> set ?z"
    using assms(2) by (auto simp: in_set_zip simp del: upt_Suc intro!: exI [of _ j])
  ultimately have "map_of (rev ?z) (ah_memory_id (?o ! j)) = Some (Suc j)" by (simp del: upt_Suc)
  then show ?thesis by (simp add: rank_within_arm_def Let_def del: upt_Suc)
qed

section \<open>Order of the result\<close>

definition rrf :: "arm_hit list \<Rightarrow> arm_hit list \<Rightarrow> int \<Rightarrow> real \<Rightarrow> real \<Rightarrow> memory_id \<Rightarrow> real" where
  "rrf lx vx k wl wv = rrf_score k wl wv (rank_within_arm lx) (rank_within_arm vx)"

definition fused_ids :: "arm_hit list \<Rightarrow> arm_hit list \<Rightarrow> int \<Rightarrow> real \<Rightarrow> real \<Rightarrow> memory_id list" where
  "fused_ids lx vx k wl wv = sort_key (\<lambda>i. (- rrf lx vx k wl wv i, i)) (sorted_list_of_set (ah_memory_id ` set lx \<union> ah_memory_id ` set vx))"

definition signal :: "arm_hit list \<Rightarrow> memory_id \<Rightarrow> arm_signal option" where
  "signal hits i = (case by_id hits i of None \<Rightarrow> None | Some h \<Rightarrow> Some \<lparr>as_raw_score = ah_raw_score h, as_rank = the (rank_within_arm hits i)\<rparr>)"

lemma signal_of_eq: "signal_of (by_id hits) (rank_within_arm hits) i = ok (signal hits i)"
proof (cases "by_id hits i")
  case (Some h)
  then have "i \<in> ah_memory_id ` set hits" using by_id_None [of hits i] by auto
  then obtain r where r: "rank_within_arm hits i = Some r" using rank_dom [of hits i] by auto
  then show ?thesis using Some rank_pos [OF r] by (simp add: signal_of_def signal_def mk_arm_signal_def)
qed (simp add: signal_of_def signal_def)

definition source_of :: "arm_hit list \<Rightarrow> arm_hit list \<Rightarrow> memory_id \<Rightarrow> arm_hit" where
  "source_of lx vx i = (case by_id lx i of Some h \<Rightarrow> h | None \<Rightarrow> the (by_id vx i))"

definition fused_of :: "arm_hit list \<Rightarrow> arm_hit list \<Rightarrow> nat \<times> memory_id \<Rightarrow> fused_candidate" where
  "fused_of lx vx e =
     \<lparr>fc_memory_id = snd e, fc_trust_tier = ah_trust_tier (source_of lx vx (snd e)), fc_status = ah_status (source_of lx vx (snd e)),
       fc_fused_rank = fst e, fc_lexical = signal lx (snd e), fc_vector = signal vx (snd e)\<rparr>"

lemma signal_None: "signal hits i = None \<longleftrightarrow> i \<notin> ah_memory_id ` set hits"
  by (auto simp: signal_def by_id_None [symmetric] split: option.splits)

lemma fuse_entry_eq:
  assumes "1 \<le> fst e" "snd e \<in> ah_memory_id ` set lx \<union> ah_memory_id ` set vx"
  shows "fuse_entry (by_id lx) (by_id vx) (rank_within_arm lx) (rank_within_arm vx) e = ok (fused_of lx vx e)"
proof -
  obtain p i where e: "e = (p, i)" by (cases e)
  have "\<not> (signal lx i = None \<and> signal vx i = None)" using assms(2) e by (simp add: signal_None)
  moreover have "(case by_id lx i of Some h \<Rightarrow> Some h | None \<Rightarrow> by_id vx i) = Some (source_of lx vx i)"
    using assms(2) e by_id_None [of lx i] by_id_None [of vx i] by (auto simp: source_of_def split: option.splits)
  ultimately show ?thesis using assms(1) e
    by (simp add: fuse_entry_def signal_of_eq fused_post_init_def fused_of_def)
qed

lemma fused_ids_set: "set (fused_ids lx vx k wl wv) = ah_memory_id ` set lx \<union> ah_memory_id ` set vx"
  by (simp add: fused_ids_def)

lemma fused_ids_distinct: "distinct (fused_ids lx vx k wl wv)"
  by (simp add: fused_ids_def)

lemma fuse_eq:
  assumes "0 < k" "0 \<le> wl" "0 \<le> wv"
  shows "fuse lx vx k wl wv = ok (map (fused_of lx vx) (zip [1..<Suc (length (fused_ids lx vx k wl wv))] (fused_ids lx vx k wl wv)))"
proof -
  let ?ids = "fused_ids lx vx k wl wv"
  have "map_res (fuse_entry (by_id lx) (by_id vx) (rank_within_arm lx) (rank_within_arm vx)) (zip [1..<Suc (length ?ids)] ?ids)
    = ok (map (fused_of lx vx) (zip [1..<Suc (length ?ids)] ?ids))"
  proof (rule map_res_total)
    fix e assume "e \<in> set (zip [1..<Suc (length ?ids)] ?ids)"
    then have "fst e \<in> set [1..<Suc (length ?ids)]" "snd e \<in> set ?ids" by (metis in_set_zipE prod.collapse)+
    then show "fuse_entry (by_id lx) (by_id vx) (rank_within_arm lx) (rank_within_arm vx) e = ok (fused_of lx vx e)"
      by (intro fuse_entry_eq) (simp_all add: fused_ids_set del: upt_Suc)
  qed
  then show ?thesis using assms by (simp add: fuse_def Let_def fused_ids_def rrf_def [abs_def] fun_eq_iff del: upt_Suc)
qed

lemma fused_list:
  "map fc_memory_id (map (fused_of lx vx) (zip [1..<Suc (length ids)] ids)) = ids"
  "map fc_fused_rank (map (fused_of lx vx) (zip [1..<Suc (length ids)] ids)) = [1..<Suc (length ids)]"
proof -
  have "fc_memory_id \<circ> fused_of lx vx = snd" "fc_fused_rank \<circ> fused_of lx vx = fst" by (auto simp: fused_of_def)
  then show "map fc_memory_id (map (fused_of lx vx) (zip [1..<Suc (length ids)] ids)) = ids"
    "map fc_fused_rank (map (fused_of lx vx) (zip [1..<Suc (length ids)] ids)) = [1..<Suc (length ids)]"
    by (simp_all del: upt_Suc)
qed


section \<open>Dominance\<close>

text \<open>One memory is ranked at least as well as another in an arm when it precedes it there, or the other is absent.\<close>

definition arm_geq :: "(memory_id \<rightharpoonup> nat) \<Rightarrow> memory_id \<Rightarrow> memory_id \<Rightarrow> bool" where
  "arm_geq ranks a b \<longleftrightarrow> (case ranks b of None \<Rightarrow> True | Some s \<Rightarrow> (case ranks a of None \<Rightarrow> False | Some r \<Rightarrow> r \<le> s))"

definition arm_gt :: "(memory_id \<rightharpoonup> nat) \<Rightarrow> memory_id \<Rightarrow> memory_id \<Rightarrow> bool" where
  "arm_gt ranks a b \<longleftrightarrow> (case ranks a of None \<Rightarrow> False | Some r \<Rightarrow> (case ranks b of None \<Rightarrow> True | Some s \<Rightarrow> r < s))"

definition contribution :: "int \<Rightarrow> real \<Rightarrow> (memory_id \<rightharpoonup> nat) \<Rightarrow> memory_id \<Rightarrow> real" where
  "contribution k w ranks i = (case ranks i of None \<Rightarrow> 0 | Some r \<Rightarrow> w / (real_of_int k + real r))"

lemma rrf_contributions: "rrf lx vx k wl wv i = contribution k wl (rank_within_arm lx) i + contribution k wv (rank_within_arm vx) i"
  by (simp add: rrf_def rrf_score_def contribution_def)

lemma contribution_mono: "0 < k \<Longrightarrow> 0 \<le> w \<Longrightarrow> arm_geq ranks a b \<Longrightarrow> contribution k w ranks b \<le> contribution k w ranks a"
  by (auto simp: arm_geq_def contribution_def split: option.splits intro!: divide_left_mono mult_pos_pos)

lemma contribution_strict: "0 < k \<Longrightarrow> 0 < w \<Longrightarrow> arm_gt ranks a b \<Longrightarrow> contribution k w ranks b < contribution k w ranks a"
  by (auto simp: arm_gt_def contribution_def split: option.splits intro!: divide_strict_left_mono mult_pos_pos divide_pos_pos)

lemma fuse_order:
  assumes fs: "fuse lx vx k wl wv = ok fs" and k: "0 < k" "0 \<le> wl" "0 \<le> wv" and i: "i < length fs" and j: "j < length fs"
    and less: "rrf lx vx k wl wv (fc_memory_id (fs ! j)) < rrf lx vx k wl wv (fc_memory_id (fs ! i))"
  shows "fc_fused_rank (fs ! i) < fc_fused_rank (fs ! j)"
proof -
  let ?key = "\<lambda>i. (- rrf lx vx k wl wv i, i)"
  let ?ids = "fused_ids lx vx k wl wv"
  have e: "fs = map (fused_of lx vx) (zip [1..<Suc (length ?ids)] ?ids)" using fs fuse_eq [OF k] by simp
  have n: "length fs = length ?ids" by (simp add: e del: upt_Suc)
  have id: "fc_memory_id (fs ! m) = ?ids ! m" "fc_fused_rank (fs ! m) = Suc m" if "m < length fs" for m
    using that n by (simp_all add: e fused_of_def del: upt_Suc)
  have "\<not> j \<le> i"
  proof
    assume "j \<le> i"
    have "sorted (map ?key ?ids)" by (simp add: fused_ids_def)
    then have "map ?key ?ids ! j \<le> map ?key ?ids ! i" using \<open>j \<le> i\<close> i n by (intro sorted_nth_mono) simp_all
    then show False using less id i j n by auto
  qed
  then show ?thesis using id(2) i j by simp
qed


text \<open>With the vector arm empty (the lexical-only rung) and a positive lexical weight, the fused order is the
  lexical arm's own order: descending raw score, then identifier.\<close>

theorem fuse_single_arm:
  assumes "distinct (map ah_memory_id lx)" "0 < k" "0 < wl" "0 \<le> wv"
  shows "\<exists>fs. fuse lx [] k wl wv = ok fs \<and> map fc_memory_id fs = map ah_memory_id (sort_key hit_key lx)"
proof -
  let ?o = "map ah_memory_id (sort_key hit_key lx)"
  let ?key = "\<lambda>i. (- rrf lx [] k wl wv i, i)"
  have nr: "rrf lx [] k wl wv (?o ! m) = wl / (real_of_int k + real (Suc m))" if "m < length lx" for m
    using that rank_nth [OF assms(1) that] by (simp add: rrf_def rrf_score_def rank_within_arm_def [of "[]"])
  have "sorted (map ?key ?o)"
  proof (unfold sorted_iff_nth_mono, intro allI impI)
    fix p q assume pq: "p \<le> q" "q < length (map ?key ?o)"
    show "map ?key ?o ! p \<le> map ?key ?o ! q"
    proof (cases "p = q")
      case False
      then have "rrf lx [] k wl wv (?o ! q) < rrf lx [] k wl wv (?o ! p)"
        using pq nr [of p] nr [of q] assms(2,3) by (auto intro!: divide_strict_left_mono mult_pos_pos)
      then show ?thesis using pq by simp
    qed simp
  qed
  moreover have "mset ?o = mset (sorted_list_of_set (ah_memory_id ` set lx))"
  proof -
    have "distinct ?o" using assms(1) by (simp add: distinct_map)
    moreover have "set ?o = set (sorted_list_of_set (ah_memory_id ` set lx))" by simp
    ultimately show ?thesis using set_eq_iff_mset_eq_distinct [of ?o "sorted_list_of_set (ah_memory_id ` set lx)"] by simp
  qed
  ultimately have "fused_ids lx [] k wl wv = ?o"
    unfolding fused_ids_def by (intro sort_key_inj_key_eq) (simp_all add: inj_on_def)
  then have "fuse lx [] k wl wv = ok (map (fused_of lx []) (zip [1..<Suc (length ?o)] ?o))"
    using fuse_eq [of k wl wv lx "[]"] assms by (simp del: upt_Suc)
  then show ?thesis using fused_list(1) [of lx "[]" ?o] by blast
qed

section \<open>Witnesses\<close>

definition sample_hit :: "uuid \<Rightarrow> real \<Rightarrow> arm_hit" where
  "sample_hit i s = \<lparr>ah_memory_id = MemoryId i, ah_raw_score = s, ah_trust_tier = TierB, ah_status = VALIDATED\<rparr>"

definition sample_lexical :: "arm_hit list" where
  "sample_lexical = [sample_hit 1 9, sample_hit 2 12]"

definition sample_vector :: "arm_hit list" where
  "sample_vector = [sample_hit 2 (4/5), sample_hit 3 (1/2)]"

lemma sample_ranks:
  "rank_within_arm sample_lexical = [MemoryId 2 \<mapsto> 1, MemoryId 1 \<mapsto> 2]" "rank_within_arm sample_vector = [MemoryId 2 \<mapsto> 1, MemoryId 3 \<mapsto> 2]"
  by (auto simp: rank_within_arm_def sample_lexical_def sample_vector_def sample_hit_def hit_key_def Let_def upt_rec)


theorem fuse_single_arm_witness:
  "\<exists>fs. fuse sample_lexical [] 60 1 1 = ok fs \<and> map fc_memory_id fs = [MemoryId 2, MemoryId 1]"
  using fuse_single_arm [of sample_lexical 60 1 1] by (simp add: sample_lexical_def sample_hit_def hit_key_def)


end
