(* ===== verification/Assembly.thy ===== *)
theory Assembly
  imports Hotpath_Budget Assembler Abstention Fusion
begin

text \<open>
  From fused candidates to packed slots, \<open>src/src/tracebed/hotpath/assembly.py\<close>, with \<open>CandidateRow\<close> and
  \<open>assert_dynamically_retrievable\<close> of \<open>stores/pg/search.py\<close>, \<open>InjectionRow\<close> of \<open>stores/pg/rows.py\<close> and
  \<open>is_expired_deadline_query_cancellation\<close> of \<open>stores/pg/pool.py\<close>. The store and the clock are the fields of an
  environment record: what each query returns or raises, and the readings taken before it and after a failure.
  \<open>created_at\<close> is a \<open>timestamptz\<close> value, in microseconds.
\<close>

section \<open>Rows and errors\<close>

record memory_row =
  mr_memory_id :: memory_id
  mr_mem_type :: mem_type
  mr_trust_tier :: trust_tier
  mr_status :: status
  mr_content :: pystr
  mr_token_count :: int
  mr_q_value :: pyfloat
  mr_confidence :: pyfloat
  mr_created_at :: int
  mr_scope_type :: scope_type
  mr_scope_id :: "uuid option"

record injection_row =
  ir_memory_id :: memory_id
  ir_slot :: slot
  ir_score :: real
  ir_tokens :: int

datatype store_exc = PoolDeadlineExceeded | QueryCanceled | StoreException

datatype assembly_error = AssemblyDeadlineExceeded | StoreError store_exc | PyError py_error

record project_scope =
  ps_project_id :: project_id
  ps_agent_type_id :: agent_type_id
  ps_principal_id :: principal_id

text \<open>The clock reading before store call \<open>i\<close>, the one taken after it raised, the wall clock, and the three queries.\<close>

record assembly_env =
  env_now :: "nat \<Rightarrow> real"
  env_now_after :: "nat \<Rightarrow> real"
  env_now_ms :: int
  env_fetch :: "project_id \<Rightarrow> memory_id list \<Rightarrow> store_exc + memory_row list"
  env_corpus :: "project_id \<Rightarrow> store_exc + int"
  env_frequency :: "project_id \<Rightarrow> pystr list \<Rightarrow> store_exc + (pystr \<rightharpoonup> int)"

record candidate_set_result =
  csr_outcome_code :: outcome_code
  csr_slots :: "context_slot list"
  csr_top_score :: "real option"
  csr_injections :: "injection_row list"

section \<open>Definitions\<close>

definition lift_py :: "'a res \<Rightarrow> assembly_error + 'a" where
  "lift_py r = (case r of Inl e \<Rightarrow> Inl (PyError e) | Inr x \<Rightarrow> Inr x)"

definition DYNAMIC_STATUSES :: "status list" where
  "DYNAMIC_STATUSES = [VALIDATED, CANDIDATE]"

definition assert_dynamically_retrievable :: "status \<Rightarrow> trust_tier \<Rightarrow> unit res" where
  "assert_dynamically_retrievable st tier =
     (if st \<notin> set DYNAMIC_STATUSES then raise TracebedError
      else if st = CANDIDATE \<and> tier \<noteq> TierA then raise TracebedError
      else ok ())"

text \<open>\<open>[0-9a-z]+\<close> over the lower-cased text. Lower-casing is exact on what the expression can match: the ASCII
  capitals, the Kelvin sign and the dotted capital I; every other code point keeps no ASCII letter or digit.\<close>

definition lower_cp :: "nat \<Rightarrow> pystr" where
  "lower_cp c = (if 65 \<le> c \<and> c \<le> 90 then [c + 32] else if c = 8490 then [107] else if c = 304 then [105, 775] else [c])"

definition is_term_cp :: "nat \<Rightarrow> bool" where
  "is_term_cp c \<longleftrightarrow> (48 \<le> c \<and> c \<le> 57) \<or> (97 \<le> c \<and> c \<le> 122)"

function findall_terms :: "pystr \<Rightarrow> pystr list" where
  "findall_terms t =
     (let s = dropWhile (\<lambda>c. \<not> is_term_cp c) t
      in if s = [] then [] else takeWhile is_term_cp s # findall_terms (dropWhile is_term_cp s))"
  by pat_completeness auto
termination
proof (relation "measure length")
  fix t s assume s: "s = dropWhile (\<lambda>c. \<not> is_term_cp c) t" "s \<noteq> []"
  have "is_term_cp (hd s)" using s hd_dropWhile by blast
  then have "dropWhile is_term_cp s = dropWhile is_term_cp (tl s)" using s(2) by (cases s) auto
  then have "length (dropWhile is_term_cp s) \<le> length (tl s)" using length_dropWhile_le [of is_term_cp "tl s"] by simp
  also have "\<dots> < length s" using s(2) by (cases s) auto
  also have "\<dots> \<le> length t" unfolding s(1) by (rule length_dropWhile_le)
  finally show "(dropWhile is_term_cp s, t) \<in> measure length" by simp
qed simp

declare findall_terms.simps [simp del]

definition query_terms :: "pystr \<Rightarrow> pystr list" where
  "query_terms t = rev (remdups (rev (findall_terms (concat (map lower_cp t)))))"

definition killswitched :: "mem_type \<Rightarrow> effective_config \<Rightarrow> bool" where
  "killswitched mt cfg = (case killswitch_overlay cfg mt of None \<Rightarrow> False | Some b \<Rightarrow> b)"

definition slot_by_mem_type :: "mem_type \<Rightarrow> slot" where
  "slot_by_mem_type mt = (case mt of SEMANTIC \<Rightarrow> FACT | EPISODIC \<Rightarrow> EXEMPLAR | LESSON \<Rightarrow> PITFALL | PREFERENCE \<Rightarrow> STATIC_PREFIX)"

definition slot_for :: "memory_row \<Rightarrow> slot" where
  "slot_for row = (if mr_status row = CANDIDATE then CANDIDATE_NOTE else slot_by_mem_type (mr_mem_type row))"

definition is_expired_deadline_query_cancellation :: "store_exc \<Rightarrow> real \<Rightarrow> 'l deadline \<Rightarrow> bool" where
  "is_expired_deadline_query_cancellation e now d \<longleftrightarrow> e = QueryCanceled \<and> remaining_ms now d \<le> 0"

definition guarded_call :: "assembly_env \<Rightarrow> 'l deadline \<Rightarrow> nat \<Rightarrow> store_exc + 'a \<Rightarrow> assembly_error + 'a" where
  "guarded_call env d i call =
     (if total_exceeded (env_now env i) d then Inl AssemblyDeadlineExceeded
      else case call of
             Inr x \<Rightarrow> Inr x
           | Inl e \<Rightarrow>
               if e = PoolDeadlineExceeded then Inl AssemblyDeadlineExceeded
               else if is_expired_deadline_query_cancellation e (env_now_after env i) d then Inl AssemblyDeadlineExceeded
               else Inl (StoreError e))"

definition shared_pcts :: "pystr list \<Rightarrow> (pystr \<rightharpoonup> int) \<Rightarrow> int \<Rightarrow> memory_row \<Rightarrow> pyfloat list" where
  "shared_pcts terms frequencies corpus row =
     map (\<lambda>t. Fin (min (100 * real_of_int (case frequencies t of None \<Rightarrow> 0 | Some n \<Rightarrow> n) / real_of_int corpus) 100))
       (filter (\<lambda>t. t \<in> set (query_terms (mr_content row))) terms)"

fun evidence_for :: "(memory_row \<Rightarrow> pyfloat list) \<Rightarrow> int \<Rightarrow> memory_row list \<Rightarrow> (memory_id \<rightharpoonup> rarity_evidence) res" where
  "evidence_for pcts corpus [] = ok Map.empty"
| "evidence_for pcts corpus (row # rows) =
     bind_res (mk_rarity_evidence (pcts row) corpus) (\<lambda>e.
     bind_res (evidence_for pcts corpus rows) (\<lambda>m.
       ok (\<lambda>i. case m i of Some e' \<Rightarrow> Some e' | None \<Rightarrow> if i = mr_memory_id row then Some e else None)))"

definition rarity_lookup :: "assembly_env \<Rightarrow> 'l deadline \<Rightarrow> project_id \<Rightarrow> pystr \<Rightarrow> memory_row list \<Rightarrow> assembly_error + (memory_id \<rightharpoonup> rarity_evidence)" where
  "rarity_lookup env d p query_text rows =
     (let terms = query_terms query_text
      in bind_res (guarded_call env d 1 (env_corpus env p)) (\<lambda>corpus.
         if corpus \<le> 0 \<or> terms = [] then lift_py (evidence_for (\<lambda>_. []) corpus rows)
         else bind_res (guarded_call env d 2 (env_frequency env p terms)) (\<lambda>frequencies.
                lift_py (evidence_for (shared_pcts terms frequencies corpus) corpus rows))))"

definition signals_for :: "fused_candidate \<Rightarrow> rarity_evidence \<Rightarrow> candidate_signals res" where
  "signals_for f r =
     mk_candidate_signals (map_option (\<lambda>s. Fin (as_raw_score s)) (fc_vector f)) (map_option (\<lambda>s. Fin (as_raw_score s)) (fc_lexical f)) r"

definition age_days :: "int \<Rightarrow> memory_row \<Rightarrow> real" where
  "age_days now_ms row = max 0 ((real_of_int now_ms - real_of_int (mr_created_at row) / 1000) / 86400000)"

definition abstention_code :: "abstention_decision \<Rightarrow> outcome_code res" where
  "abstention_code d = (case ad_outcome_code d of None \<Rightarrow> raise ValueError | Some c \<Rightarrow> ok c)"

definition assembly_outcome :: "bool \<Rightarrow> outcome_code list \<Rightarrow> outcome_code" where
  "assembly_outcome anything_placed abstentions =
     (if anything_placed then INJECTED else if abstentions \<noteq> [] then hd abstentions else EMPTY_RESULT)"

text \<open>The loop over the candidates in fused order: what is injectable, the codes of those that abstained, the best score.\<close>

record loop_state =
  ls_injectable :: "candidate list"
  ls_abstentions :: "outcome_code list"
  ls_best_score :: "real option"

definition score_row :: "effective_config \<Rightarrow> int \<Rightarrow> fused_candidate \<Rightarrow> memory_row \<Rightarrow> real res" where
  "score_row cfg now_ms f row =
     bind_res (mk_calibrated_signals (case fc_vector f of None \<Rightarrow> Fin 0 | Some s \<Rightarrow> Fin (as_raw_score s)) (mr_q_value row)
                 (Fin (age_days now_ms row)) (mr_confidence row)) (\<lambda>sig. calibrated_score sig (score_cfg cfg))"

definition candidate_for :: "memory_row \<Rightarrow> real \<Rightarrow> candidate res" where
  "candidate_for row score =
     bind_res (utf8_encode (mr_content row)) (\<lambda>bs.
       mk_candidate (slot_for row) (mr_memory_id row) (mr_mem_type row) (mr_content row) (mr_token_count row) (Fin score) (sha256_hex bs))"

definition judge :: "effective_config \<Rightarrow> int \<Rightarrow> fused_candidate \<Rightarrow> memory_row \<Rightarrow> rarity_evidence \<Rightarrow> loop_state \<Rightarrow> loop_state res" where
  "judge cfg now_ms f row rarity st =
     bind_res (signals_for f rarity) (\<lambda>sig.
     bind_res (abstention_decide sig (abstention cfg)) (\<lambda>decision.
     bind_res (score_row cfg now_ms f row) (\<lambda>score.
     let st1 = st\<lparr>ls_best_score := Some (case ls_best_score st of None \<Rightarrow> score | Some b \<Rightarrow> max b score)\<rparr>
     in if \<not> ad_inject decision
        then bind_res (abstention_code decision) (\<lambda>code. ok (st1\<lparr>ls_abstentions := ls_abstentions st1 @ [code]\<rparr>))
        else bind_res (candidate_for row score) (\<lambda>c. ok (st1\<lparr>ls_injectable := ls_injectable st1 @ [c]\<rparr>)))))"

definition consider_one :: "effective_config \<Rightarrow> int \<Rightarrow> run_visibility \<Rightarrow> (memory_id \<rightharpoonup> memory_row) \<Rightarrow> (memory_id \<rightharpoonup> rarity_evidence) \<Rightarrow> fused_candidate \<Rightarrow> loop_state \<Rightarrow> loop_state res" where
  "consider_one cfg now_ms vis rows rarity f st =
     (case rows (fc_memory_id f) of
        None \<Rightarrow> ok st
      | Some row \<Rightarrow>
          bind_res (assert_dynamically_retrievable (mr_status row) (mr_trust_tier row)) (\<lambda>_.
          if \<not> scope_visible (mr_scope_type row) (mr_scope_id row) vis then ok st
          else if killswitched (mr_mem_type row) cfg then ok st
          else case rarity (fc_memory_id f) of
                 None \<Rightarrow> raise KeyError
               | Some r \<Rightarrow> judge cfg now_ms f row r st))"

primrec consider_all :: "effective_config \<Rightarrow> int \<Rightarrow> run_visibility \<Rightarrow> (memory_id \<rightharpoonup> memory_row) \<Rightarrow> (memory_id \<rightharpoonup> rarity_evidence) \<Rightarrow> fused_candidate list \<Rightarrow> loop_state \<Rightarrow> loop_state res" where
  "consider_all cfg now_ms vis rows rarity [] st = ok st"
| "consider_all cfg now_ms vis rows rarity (f # fs) st =
     bind_res (consider_one cfg now_ms vis rows rarity f st) (consider_all cfg now_ms vis rows rarity fs)"

definition rows_dict :: "memory_row list \<Rightarrow> (memory_id \<times> memory_row) list" where
  "rows_dict rows = foldl (\<lambda>d r. AList.update (mr_memory_id r) r d) [] rows"

definition injections_of :: "candidate list \<Rightarrow> context_slot list \<Rightarrow> injection_row list" where
  "injections_of injectable xs =
     map (\<lambda>c. \<lparr>ir_memory_id = cd_memory_id c, ir_slot = cd_slot c, ir_score = cd_score c, ir_tokens = cd_tokens c\<rparr>)
       (filter (\<lambda>c. Some (memory_value (cd_memory_id c)) \<in> set (map cs_memory_id xs)) injectable)"

definition empty_result :: candidate_set_result where
  "empty_result = \<lparr>csr_outcome_code = EMPTY_RESULT, csr_slots = [], csr_top_score = None, csr_injections = []\<rparr>"

text \<open>\<open>run\<close> on the deadline of the request.\<close>

definition assembly_run :: "assembly_env \<Rightarrow> 'l deadline \<Rightarrow> project_scope \<Rightarrow> pystr \<Rightarrow> fused_candidate list \<Rightarrow> effective_config \<Rightarrow> assembly_error + candidate_set_result" where
  "assembly_run env d scope query_text candidates cfg =
     (if candidates = [] then Inr empty_result
      else bind_res (guarded_call env d 0 (env_fetch env (ps_project_id scope) (map fc_memory_id candidates))) (\<lambda>fetched.
        let rows = rows_dict fetched
        in if rows = [] then Inr empty_result
           else bind_res (rarity_lookup env d (ps_project_id scope) query_text (map snd rows)) (\<lambda>rarity.
             let vis = \<lparr>rv_agent_type_id = ps_agent_type_id scope, rv_workflow_template_id = None, rv_user_scope_id = None\<rparr>
             in bind_res (lift_py (consider_all cfg (env_now_ms env) vis (map_of rows) rarity candidates
                            \<lparr>ls_injectable = [], ls_abstentions = [], ls_best_score = None\<rparr>)) (\<lambda>st.
                  let assembled = assemble cfg (ls_injectable st)
                  in Inr \<lparr>csr_outcome_code = assembly_outcome (ax_slots assembled \<noteq> []) (ls_abstentions st),
                           csr_slots = ax_slots assembled, csr_top_score = ls_best_score st,
                           csr_injections = injections_of (ls_injectable st) (ax_slots assembled)\<rparr>))))"

text \<open>\<open>run\<close> without one: a deadline anchored at its own entry.\<close>

definition assembly_run_standalone :: "assembly_env \<Rightarrow> real \<Rightarrow> project_scope \<Rightarrow> pystr \<Rightarrow> fused_candidate list \<Rightarrow> effective_config \<Rightarrow> assembly_error + candidate_set_result" where
  "assembly_run_standalone env now scope query_text candidates cfg =
     (if candidates = [] then Inr empty_result
      else bind_res (lift_py (deadline_init now (rc_total_budget_ms (retrieval cfg)) (rc_embed_timeout_ms (retrieval cfg)) None :: unit deadline res)) (\<lambda>d.
        assembly_run env d scope query_text candidates cfg))"

section \<open>What the loop lets through\<close>

text \<open>A candidate the loop may inject: its row is among the fetched ones, retrievable, visible and not switched off, and
  its own signals clear the gates.\<close>

definition cleared :: "effective_config \<Rightarrow> run_visibility \<Rightarrow> (memory_id \<rightharpoonup> memory_row) \<Rightarrow> (memory_id \<rightharpoonup> rarity_evidence) \<Rightarrow> fused_candidate list \<Rightarrow> candidate \<Rightarrow> bool" where
  "cleared cfg vis rows rarity fs c \<longleftrightarrow> (\<exists>f row r sig dec. f \<in> set fs \<and> rows (fc_memory_id f) = Some row \<and> rarity (fc_memory_id f) = Some r \<and>
     (mr_status row = VALIDATED \<or> mr_status row = CANDIDATE \<and> mr_trust_tier row = TierA) \<and>
     scope_visible (mr_scope_type row) (mr_scope_id row) vis \<and> \<not> killswitched (mr_mem_type row) cfg \<and>
     signals_for f r = ok sig \<and> abstention_decide sig (abstention cfg) = ok dec \<and> ad_inject dec \<and>
     cd_memory_id c = mr_memory_id row \<and> cd_text c = mr_content row \<and> cd_tokens c = mr_token_count row \<and> cd_slot c = slot_for row \<and>
     cd_mem_type c = mr_mem_type row \<and> wf_candidate c)"

lemma assert_retrievable_ok: "assert_dynamically_retrievable st tier = ok () \<longleftrightarrow> st = VALIDATED \<or> st = CANDIDATE \<and> tier = TierA"
  by (auto simp: assert_dynamically_retrievable_def DYNAMIC_STATUSES_def)

lemma candidate_for_ok:
  assumes "candidate_for row score = ok c"
  shows "cd_memory_id c = mr_memory_id row" "cd_text c = mr_content row" "cd_tokens c = mr_token_count row" "cd_slot c = slot_for row"
    "cd_mem_type c = mr_mem_type row" "wf_candidate c"
proof -
  obtain bs where m: "mk_candidate (slot_for row) (mr_memory_id row) (mr_mem_type row) (mr_content row) (mr_token_count row) (Fin score) (sha256_hex bs) = ok c"
    using assms by (auto simp: candidate_for_def res_simps)
  then show "wf_candidate c" by (rule mk_candidate_wf)
  show "cd_memory_id c = mr_memory_id row" "cd_text c = mr_content row" "cd_tokens c = mr_token_count row" "cd_slot c = slot_for row"
    "cd_mem_type c = mr_mem_type row"
    using m by (auto simp: mk_candidate_def split: if_splits)
qed

lemma judge_ok:
  assumes "judge cfg now_ms f row r st = ok st'"
  shows "\<exists>sig dec. signals_for f r = ok sig \<and> abstention_decide sig (abstention cfg) = ok dec \<and>
    (if ad_inject dec then ls_abstentions st' = ls_abstentions st \<and> (\<exists>score c. score_row cfg now_ms f row = ok score \<and> candidate_for row score = ok c \<and>
         ls_injectable st' = ls_injectable st @ [c])
     else ls_injectable st' = ls_injectable st \<and> (\<exists>code. ls_abstentions st' = ls_abstentions st @ [code] \<and> abstention_code dec = ok code))"
proof -
  obtain sig dec score where o: "signals_for f r = ok sig" "abstention_decide sig (abstention cfg) = ok dec" "score_row cfg now_ms f row = ok score"
    using assms by (auto simp: judge_def bind_res_Inr_iff)
  show ?thesis
  proof (cases "ad_inject dec")
    case True
    then show ?thesis using assms o by (auto simp: judge_def bind_res_Inr_iff)
  next
    case False
    then show ?thesis using assms o by (auto simp: judge_def bind_res_Inr_iff)
  qed
qed

definition abstention_codes :: "outcome_code set" where
  "abstention_codes = {ABSTAINED_THRESHOLD, ABSTAINED_RARITY}"

lemma decide_codes: "abstention_decide sig cfg = ok dec \<Longrightarrow> abstention_code dec = ok code \<Longrightarrow> code \<in> abstention_codes"
  by (auto simp: abstention_decide_def abstention_code_def abstention_codes_def bind_res_Inr_iff Let_def split: if_splits option.splits)

lemma consider_one_codes:
  assumes "consider_one cfg now_ms vis rows rarity f st = ok st'" "set (ls_abstentions st) \<subseteq> abstention_codes"
  shows "set (ls_abstentions st') \<subseteq> abstention_codes"
proof -
  have "set (ls_abstentions st') \<subseteq> abstention_codes" if "judge cfg now_ms f row r st = ok st'" for row r
    using judge_ok [OF that] assms(2) decide_codes by (fastforce split: if_splits)
  then show ?thesis using assms by (auto simp: consider_one_def bind_res_Inr_iff split: option.splits if_splits)
qed

lemma consider_one_ok:
  assumes "consider_one cfg now_ms vis rows rarity f st = ok st'"
  shows "(ls_injectable st' = ls_injectable st \<or> (\<exists>c. ls_injectable st' = ls_injectable st @ [c] \<and> cleared cfg vis rows rarity [f] c))"
    "rows (fc_memory_id f) = None \<Longrightarrow> st' = st"
proof -
  show "(ls_injectable st' = ls_injectable st \<or> (\<exists>c. ls_injectable st' = ls_injectable st @ [c] \<and> cleared cfg vis rows rarity [f] c))"
  proof (cases "rows (fc_memory_id f)")
    case (Some row)
    have ret: "mr_status row = VALIDATED \<or> mr_status row = CANDIDATE \<and> mr_trust_tier row = TierA"
      using assms Some by (auto simp: consider_one_def bind_res_Inr_iff assert_retrievable_ok [symmetric])
    show ?thesis
    proof (cases "scope_visible (mr_scope_type row) (mr_scope_id row) vis \<and> \<not> killswitched (mr_mem_type row) cfg")
      case True
      then obtain r where r: "rarity (fc_memory_id f) = Some r" "judge cfg now_ms f row r st = ok st'"
        using assms Some by (auto simp: consider_one_def bind_res_Inr_iff split: option.splits)
      obtain sig dec where j: "signals_for f r = ok sig" "abstention_decide sig (abstention cfg) = ok dec"
        "if ad_inject dec then ls_abstentions st' = ls_abstentions st \<and> (\<exists>score c. score_row cfg now_ms f row = ok score \<and> candidate_for row score = ok c \<and>
           ls_injectable st' = ls_injectable st @ [c])
         else ls_injectable st' = ls_injectable st \<and> (\<exists>code. ls_abstentions st' = ls_abstentions st @ [code] \<and> abstention_code dec = ok code)"
        using judge_ok [OF r(2)] by blast
      show ?thesis
      proof (cases "ad_inject dec")
        case inj: True
        then obtain score c where c: "candidate_for row score = ok c" "ls_injectable st' = ls_injectable st @ [c]" using j(3) by auto
        have "cleared cfg vis rows rarity [f] c"
          unfolding cleared_def
          by (rule exI [of _ f], rule exI [of _ row], rule exI [of _ r], rule exI [of _ sig], rule exI [of _ dec])
             (simp add: Some r ret True j inj candidate_for_ok [OF c(1)])
        then show ?thesis using c(2) by blast
      qed (use j(3) in simp)
    next
      case False
      then have "st' = st" using assms Some by (auto simp: consider_one_def bind_res_Inr_iff split: if_splits)
      then show ?thesis by simp
    qed
  qed (use assms in \<open>simp add: consider_one_def\<close>)
  show "rows (fc_memory_id f) = None \<Longrightarrow> st' = st" using assms by (simp add: consider_one_def)
qed

lemma rows_dict_fold:
  "map_of (foldl (\<lambda>d r. AList.update (mr_memory_id r) r d) d rows) i = Some r \<Longrightarrow> map_of d i = Some r \<or> mr_memory_id r = i \<and> r \<in> set rows"
proof (induction rows arbitrary: d)
  case (Cons a rows)
  then show ?case using Cons.IH [of "AList.update (mr_memory_id a) a d"] by (auto simp: update_conv' split: if_splits)
qed simp

lemma rows_dict_map: "map_of (rows_dict rows) i = Some r \<Longrightarrow> mr_memory_id r = i \<and> r \<in> set rows"
  using rows_dict_fold [of "[]" rows i r] by (simp add: rows_dict_def)

lemma lift_py_Inr [simp]: "lift_py r = Inr x \<longleftrightarrow> r = Inr x"
  by (auto simp: lift_py_def split: sum.splits)

lemma cleared_mono: "cleared cfg vis rows rarity fs c \<Longrightarrow> set fs \<subseteq> set gs \<Longrightarrow> cleared cfg vis rows rarity gs c"
  unfolding cleared_def by blast

lemma cleared_id: "cleared cfg vis rows rarity [f] c \<Longrightarrow> (\<And>i r. rows i = Some r \<Longrightarrow> mr_memory_id r = i) \<Longrightarrow> cd_memory_id c = fc_memory_id f"
  unfolding cleared_def by auto

lemma consider_all_ok:
  assumes "consider_all cfg now_ms vis rows rarity fs st = ok st'" "\<And>i r. rows i = Some r \<Longrightarrow> mr_memory_id r = i"
  shows "\<exists>new. ls_injectable st' = ls_injectable st @ new \<and> (\<forall>c\<in>set new. cleared cfg vis rows rarity fs c) \<and>
    subseq (map cd_memory_id new) (map fc_memory_id fs)"
  using assms(1)
proof (induction fs arbitrary: st)
  case (Cons f fs)
  obtain st1 where st1: "consider_one cfg now_ms vis rows rarity f st = ok st1" "consider_all cfg now_ms vis rows rarity fs st1 = ok st'"
    using Cons.prems by (auto simp: bind_res_Inr_iff)
  obtain new where new: "ls_injectable st' = ls_injectable st1 @ new" "\<forall>c\<in>set new. cleared cfg vis rows rarity fs c"
    "subseq (map cd_memory_id new) (map fc_memory_id fs)" using Cons.IH [OF st1(2)] by blast
  have later: "\<forall>c\<in>set new. cleared cfg vis rows rarity (f # fs) c"
    using new(2) cleared_mono [of cfg vis rows rarity fs _ "f # fs"] by auto
  from consider_one_ok(1) [OF st1(1)] show ?case
  proof
    assume "ls_injectable st1 = ls_injectable st"
    then show ?thesis using new later by (intro exI [of _ new]) (simp add: list_emb_Cons)
  next
    assume "\<exists>c. ls_injectable st1 = ls_injectable st @ [c] \<and> cleared cfg vis rows rarity [f] c"
    then obtain c where c: "ls_injectable st1 = ls_injectable st @ [c]" "cleared cfg vis rows rarity [f] c" by blast
    have "cleared cfg vis rows rarity (f # fs) c" by (rule cleared_mono [OF c(2)]) simp
    then show ?thesis using new later c cleared_id [OF c(2) assms(2)] by (intro exI [of _ "c # new"]) simp
  qed
qed simp

lemma consider_all_codes:
  "consider_all cfg now_ms vis rows rarity fs st = ok st' \<Longrightarrow> set (ls_abstentions st) \<subseteq> abstention_codes \<Longrightarrow> set (ls_abstentions st') \<subseteq> abstention_codes"
  by (induction fs arbitrary: st) (auto simp: bind_res_Inr_iff dest: consider_one_codes)

text \<open>A returned result, taken apart.\<close>

definition scope_vis :: "project_scope \<Rightarrow> run_visibility" where
  "scope_vis scope = \<lparr>rv_agent_type_id = ps_agent_type_id scope, rv_workflow_template_id = None, rv_user_scope_id = None\<rparr>"

lemma assembly_run_ok:
  assumes "assembly_run env d scope q fs cfg = Inr res"
  shows "res = empty_result \<or> (\<exists>fetched rarity js abst best.
    env_fetch env (ps_project_id scope) (map fc_memory_id fs) = Inr fetched \<and>
    (\<forall>c\<in>set js. cleared cfg (scope_vis scope) (map_of (rows_dict fetched)) rarity fs c) \<and>
    subseq (map cd_memory_id js) (map fc_memory_id fs) \<and> set abst \<subseteq> abstention_codes \<and>
    res = \<lparr>csr_outcome_code = assembly_outcome (ax_slots (assemble cfg js) \<noteq> []) abst, csr_slots = ax_slots (assemble cfg js),
      csr_top_score = best, csr_injections = injections_of js (ax_slots (assemble cfg js))\<rparr>)"
proof (cases "res = empty_result")
  case False
  obtain fetched rarity st where f: "guarded_call env d 0 (env_fetch env (ps_project_id scope) (map fc_memory_id fs)) = Inr fetched"
    "consider_all cfg (env_now_ms env) (scope_vis scope) (map_of (rows_dict fetched)) rarity fs
       \<lparr>ls_injectable = [], ls_abstentions = [], ls_best_score = None\<rparr> = ok st"
    "res = \<lparr>csr_outcome_code = assembly_outcome (ax_slots (assemble cfg (ls_injectable st)) \<noteq> []) (ls_abstentions st),
       csr_slots = ax_slots (assemble cfg (ls_injectable st)), csr_top_score = ls_best_score st,
       csr_injections = injections_of (ls_injectable st) (ax_slots (assemble cfg (ls_injectable st)))\<rparr>"
  proof -
    have ne: "fs \<noteq> []" using assms False by (auto simp: assembly_run_def)
    obtain fetched where 1: "guarded_call env d 0 (env_fetch env (ps_project_id scope) (map fc_memory_id fs)) = Inr fetched"
      using assms ne by (auto simp: assembly_run_def bind_res_Inr_iff)
    have ne': "rows_dict fetched \<noteq> []" using assms False ne 1 by (auto simp: assembly_run_def)
    obtain rarity where 2: "rarity_lookup env d (ps_project_id scope) q (map snd (rows_dict fetched)) = Inr rarity"
      using assms ne ne' 1 by (auto simp: assembly_run_def bind_res_Inr_iff Let_def)
    have "bind_res (lift_py (consider_all cfg (env_now_ms env) (scope_vis scope) (map_of (rows_dict fetched)) rarity fs
       \<lparr>ls_injectable = [], ls_abstentions = [], ls_best_score = None\<rparr>)) (\<lambda>st.
         Inr \<lparr>csr_outcome_code = assembly_outcome (ax_slots (assemble cfg (ls_injectable st)) \<noteq> []) (ls_abstentions st),
           csr_slots = ax_slots (assemble cfg (ls_injectable st)), csr_top_score = ls_best_score st,
           csr_injections = injections_of (ls_injectable st) (ax_slots (assemble cfg (ls_injectable st)))\<rparr>) = Inr res"
      using assms ne ne' 1 2 by (simp add: assembly_run_def scope_vis_def Let_def)
    then show ?thesis using that 1 by (auto simp: bind_res_Inr_iff)
  qed
  have "\<exists>new. ls_injectable st = [] @ new \<and> (\<forall>c\<in>set new. cleared cfg (scope_vis scope) (map_of (rows_dict fetched)) rarity fs c) \<and>
    subseq (map cd_memory_id new) (map fc_memory_id fs)"
    using consider_all_ok [OF f(2)] rows_dict_map by simp
  moreover have "env_fetch env (ps_project_id scope) (map fc_memory_id fs) = Inr fetched"
    using f(1) by (auto simp: guarded_call_def split: if_splits sum.splits)
  moreover have "set (ls_abstentions st) \<subseteq> abstention_codes" using consider_all_codes [OF f(2)] by simp
  ultimately show ?thesis using f(3)
    by (intro disjI2 exI [of _ fetched] exI [of _ rarity] exI [of _ "ls_injectable st"] exI [of _ "ls_abstentions st"] exI [of _ "ls_best_score st"]) simp
qed simp

text \<open>The slots are those of candidates the loop let through.\<close>

lemma assemble_slots_from:
  assumes "\<forall>c\<in>set js. wf_candidate c" "x \<in> set (ax_slots (assemble cfg js))"
  shows "\<exists>c\<in>set js. x = \<lparr>cs_slot = cd_slot c, cs_memory_id = Some (memory_value (cd_memory_id c)), cs_tokens = cd_tokens c, cs_text = cd_text c\<rparr>"
proof -
  have sel: "select cfg js = (selection cfg js, snd (select cfg js))" by (simp add: selection_def)
  have "set (selection cfg js) \<subseteq> set js" using select_set(1) [OF wf_tokens [OF assms(1)] sel] dedup_subset [of js] by blast
  then show ?thesis using assms(2) by (auto simp: assemble_slots)
qed

lemma assembled_tokens:
  assumes "\<forall>c\<in>set js. wf_candidate c"
  shows "sum_list (map cs_tokens (ax_slots (assemble cfg js))) \<le> max (bc_total_tokens (budget cfg)) 0"
    "distinct (map cs_memory_id (ax_slots (assemble cfg js)))" "sorted (map (slot_rank \<circ> cs_slot) (ax_slots (assemble cfg js)))"
proof -
  have sel: "select cfg js = (selection cfg js, snd (select cfg js))" by (simp add: selection_def)
  note caps = select_caps [OF wf_tokens [OF assms] sel] and ss = select_set [OF wf_tokens [OF assms] sel]
  have "sum_list (map cs_tokens (ax_slots (assemble cfg js))) = toks (selection cfg js)"
    by (simp add: assemble_slots toks_def comp_def)
  then show "sum_list (map cs_tokens (ax_slots (assemble cfg js))) \<le> max (bc_total_tokens (budget cfg)) 0" using caps(1,2) by simp
  show "sorted (map (slot_rank \<circ> cs_slot) (ax_slots (assemble cfg js)))" using ss(4) by (simp add: assemble_slots comp_def)
  have "inj_on (\<lambda>c. Some (memory_value (cd_memory_id c))) (set (selection cfg js))"
    using ss(2) by (auto simp: distinct_map inj_on_def memory_id.expand)
  moreover have "distinct (selection cfg js)" using ss(2) by (simp add: distinct_map)
  ultimately show "distinct (map cs_memory_id (ax_slots (assemble cfg js)))" by (simp add: assemble_slots distinct_map comp_def)
qed

lemma cleared_wf: "cleared cfg vis rows rarity fs c \<Longrightarrow> wf_candidate c"
  unfolding cleared_def by blast

lemma injections_match:
  assumes "\<forall>c\<in>set js. wf_candidate c" "distinct (map cd_memory_id js)"
  shows "distinct (map ir_memory_id (injections_of js (ax_slots (assemble cfg js))))"
    "set (map (\<lambda>i. (Some (memory_value (ir_memory_id i)), ir_slot i, ir_tokens i)) (injections_of js (ax_slots (assemble cfg js)))) =
     set (map (\<lambda>x. (cs_memory_id x, cs_slot x, cs_tokens x)) (ax_slots (assemble cfg js)))"
proof -
  let ?p = "\<lambda>c. Some (memory_value (cd_memory_id c)) \<in> set (map cs_memory_id (ax_slots (assemble cfg js)))"
  have sel: "select cfg js = (selection cfg js, snd (select cfg js))" by (simp add: selection_def)
  have sub: "set (selection cfg js) \<subseteq> set js" using select_set(1) [OF wf_tokens [OF assms(1)] sel] dedup_subset [of js] by blast
  have ids: "set (map cs_memory_id (ax_slots (assemble cfg js))) = (\<lambda>c. Some (memory_value (cd_memory_id c))) ` set (selection cfg js)"
    by (simp add: assemble_slots image_image)
  have "set (filter ?p js) = set (selection cfg js)"
  proof -
    have "c \<in> set (selection cfg js)" if c: "c \<in> set js" "?p c" for c
    proof -
      obtain c' where c': "c' \<in> set (selection cfg js)" "memory_value (cd_memory_id c) = memory_value (cd_memory_id c')" using c(2) unfolding ids by auto
      then have "cd_memory_id c = cd_memory_id c'" by (intro memory_id.expand) simp
      then have "c = c'" using assms(2) c(1) sub c'(1) by (auto simp: distinct_map dest: inj_onD)
      then show ?thesis using c'(1) by simp
    qed
    then show ?thesis using sub unfolding set_filter ids by auto
  qed
  then show "set (map (\<lambda>i. (Some (memory_value (ir_memory_id i)), ir_slot i, ir_tokens i)) (injections_of js (ax_slots (assemble cfg js)))) =
     set (map (\<lambda>x. (cs_memory_id x, cs_slot x, cs_tokens x)) (ax_slots (assemble cfg js)))"
    by (simp add: injections_of_def assemble_slots image_image del: set_filter)
  show "distinct (map ir_memory_id (injections_of js (ax_slots (assemble cfg js))))"
    using distinct_map_filter [OF assms(2), of ?p] by (simp add: injections_of_def comp_def)
qed

section \<open>What a run guarantees\<close>

lemma run_gatekeeping:
  assumes "assembly_run env d scope q fs cfg = Inr res" "x \<in> set (csr_slots res)"
  shows "\<exists>fetched row f r sig dec. env_fetch env (ps_project_id scope) (map fc_memory_id fs) = Inr fetched \<and> row \<in> set fetched \<and>
     f \<in> set fs \<and> fc_memory_id f = mr_memory_id row \<and>
     (mr_status row = VALIDATED \<or> mr_status row = CANDIDATE \<and> mr_trust_tier row = TierA) \<and>
     (mr_scope_type row = PROJECT_SHARED \<or> mr_scope_type row = AGENT_TYPE \<and> mr_scope_id row = Some (agent_type_value (ps_agent_type_id scope))) \<and>
     killswitch_overlay cfg (mr_mem_type row) \<noteq> Some True \<and>
     signals_for f r = ok sig \<and> abstention_decide sig (abstention cfg) = ok dec \<and> ad_inject dec \<and>
     cs_memory_id x = Some (memory_value (mr_memory_id row)) \<and> cs_text x = mr_content row \<and> cs_tokens x = mr_token_count row \<and> cs_slot x = slot_for row"
proof -
  have "res \<noteq> empty_result" using assms(2) by (auto simp: empty_result_def)
  then obtain fetched rarity js abst best where a:
    "env_fetch env (ps_project_id scope) (map fc_memory_id fs) = Inr fetched"
    "\<forall>c\<in>set js. cleared cfg (scope_vis scope) (map_of (rows_dict fetched)) rarity fs c"
    "csr_slots res = ax_slots (assemble cfg js)"
    using assembly_run_ok [OF assms(1)] by auto
  have "\<forall>c\<in>set js. wf_candidate c" using a(2) cleared_wf by blast
  then obtain c where c: "c \<in> set js" "x = \<lparr>cs_slot = cd_slot c, cs_memory_id = Some (memory_value (cd_memory_id c)), cs_tokens = cd_tokens c, cs_text = cd_text c\<rparr>"
    using assemble_slots_from [of js x cfg] assms(2) a(3) by auto
  obtain f row r sig dec where k: "f \<in> set fs" "map_of (rows_dict fetched) (fc_memory_id f) = Some row"
    "mr_status row = VALIDATED \<or> mr_status row = CANDIDATE \<and> mr_trust_tier row = TierA"
    "scope_visible (mr_scope_type row) (mr_scope_id row) (scope_vis scope)" "\<not> killswitched (mr_mem_type row) cfg"
    "signals_for f r = ok sig" "abstention_decide sig (abstention cfg) = ok dec" "ad_inject dec"
    "cd_memory_id c = mr_memory_id row" "cd_text c = mr_content row" "cd_tokens c = mr_token_count row" "cd_slot c = slot_for row"
    using a(2) c(1) unfolding cleared_def by blast
  have row: "mr_memory_id row = fc_memory_id f" "row \<in> set fetched" using rows_dict_map [OF k(2)] by auto
  have vis: "mr_scope_type row = PROJECT_SHARED \<or> mr_scope_type row = AGENT_TYPE \<and> mr_scope_id row = Some (agent_type_value (ps_agent_type_id scope))"
    using k(4) by (subst (asm) scope_visible_fail_closed) (simp_all add: scope_vis_def)
  have "killswitch_overlay cfg (mr_mem_type row) \<noteq> Some True" using k(5) by (auto simp: killswitched_def)
  then show ?thesis using a(1) row k vis c(2)
    by (intro exI [of _ fetched] exI [of _ row] exI [of _ f] exI [of _ r] exI [of _ sig] exI [of _ dec]) simp
qed

lemma run_accounting:
  assumes "assembly_run env d scope q fs cfg = Inr res" "distinct (map fc_memory_id fs)"
  shows "distinct (map ir_memory_id (csr_injections res)) \<and> distinct (map cs_memory_id (csr_slots res)) \<and>
     set (map (\<lambda>i. (Some (memory_value (ir_memory_id i)), ir_slot i, ir_tokens i)) (csr_injections res)) =
       set (map (\<lambda>x. (cs_memory_id x, cs_slot x, cs_tokens x)) (csr_slots res)) \<and>
     sum_list (map cs_tokens (csr_slots res)) \<le> max (bc_total_tokens (budget cfg)) 0 \<and>
     sorted (map (slot_rank \<circ> cs_slot) (csr_slots res)) \<and>
     (csr_outcome_code res = INJECTED \<longleftrightarrow> csr_slots res \<noteq> []) \<and>
     csr_outcome_code res \<in> {INJECTED, ABSTAINED_THRESHOLD, ABSTAINED_RARITY, EMPTY_RESULT}"
proof (cases "res = empty_result")
  case False
  then obtain fetched rarity js abst best where a:
    "\<forall>c\<in>set js. cleared cfg (scope_vis scope) (map_of (rows_dict fetched)) rarity fs c" "subseq (map cd_memory_id js) (map fc_memory_id fs)" "set abst \<subseteq> abstention_codes"
    "res = \<lparr>csr_outcome_code = assembly_outcome (ax_slots (assemble cfg js) \<noteq> []) abst, csr_slots = ax_slots (assemble cfg js),
      csr_top_score = best, csr_injections = injections_of js (ax_slots (assemble cfg js))\<rparr>"
    using assembly_run_ok [OF assms(1)] by auto
  have wf: "\<forall>c\<in>set js. wf_candidate c" using a(1) cleared_wf by blast
  have di: "distinct (map cd_memory_id js)" using distinct_subseq [OF a(2) assms(2)] .
  have "csr_outcome_code res \<in> {INJECTED, ABSTAINED_THRESHOLD, ABSTAINED_RARITY, EMPTY_RESULT}" "csr_outcome_code res = INJECTED \<longleftrightarrow> csr_slots res \<noteq> []"
    using a(3) unfolding a(4) by (cases abst; auto simp: assembly_outcome_def abstention_codes_def)+
  then show ?thesis using assembled_tokens [OF wf, of cfg] injections_match [OF wf di, of cfg] unfolding a(4) by auto
qed (simp add: empty_result_def)

text \<open>What a client relies on: a slot is the content of a row its scope may see, and a result is accounted for.\<close>

definition slot_permitted :: "assembly_env \<Rightarrow> project_scope \<Rightarrow> effective_config \<Rightarrow> context_slot \<Rightarrow> bool" where
  "slot_permitted env scope cfg x \<longleftrightarrow> (\<exists>ids fetched row f r sig dec. env_fetch env (ps_project_id scope) ids = Inr fetched \<and> row \<in> set fetched \<and>
     fc_memory_id f \<in> set ids \<and> fc_memory_id f = mr_memory_id row \<and>
     (mr_status row = VALIDATED \<or> mr_status row = CANDIDATE \<and> mr_trust_tier row = TierA) \<and>
     (mr_scope_type row = PROJECT_SHARED \<or> mr_scope_type row = AGENT_TYPE \<and> mr_scope_id row = Some (agent_type_value (ps_agent_type_id scope))) \<and>
     killswitch_overlay cfg (mr_mem_type row) \<noteq> Some True \<and>
     signals_for f r = ok sig \<and> abstention_decide sig (abstention cfg) = ok dec \<and> ad_inject dec \<and>
     cs_memory_id x = Some (memory_value (mr_memory_id row)) \<and> cs_text x = mr_content row \<and> cs_tokens x = mr_token_count row \<and> cs_slot x = slot_for row)"

definition result_sound :: "effective_config \<Rightarrow> candidate_set_result \<Rightarrow> bool" where
  "result_sound cfg res \<longleftrightarrow> distinct (map ir_memory_id (csr_injections res)) \<and> distinct (map cs_memory_id (csr_slots res)) \<and>
     set (map (\<lambda>i. (Some (memory_value (ir_memory_id i)), ir_slot i, ir_tokens i)) (csr_injections res)) =
       set (map (\<lambda>x. (cs_memory_id x, cs_slot x, cs_tokens x)) (csr_slots res)) \<and>
     sum_list (map cs_tokens (csr_slots res)) \<le> max (bc_total_tokens (budget cfg)) 0 \<and>
     sorted (map (slot_rank \<circ> cs_slot) (csr_slots res)) \<and>
     (csr_outcome_code res = INJECTED \<longleftrightarrow> csr_slots res \<noteq> []) \<and>
     csr_outcome_code res \<in> {INJECTED, ABSTAINED_THRESHOLD, ABSTAINED_RARITY, EMPTY_RESULT}"

lemma run_slot_permitted:
  assumes "assembly_run env d scope q fs cfg = Inr res" "x \<in> set (csr_slots res)"
  shows "slot_permitted env scope cfg x"
proof -
  obtain fetched row f r sig dec where a: "env_fetch env (ps_project_id scope) (map fc_memory_id fs) = Inr fetched" "row \<in> set fetched"
    "f \<in> set fs" "fc_memory_id f = mr_memory_id row"
    "mr_status row = VALIDATED \<or> mr_status row = CANDIDATE \<and> mr_trust_tier row = TierA"
    "mr_scope_type row = PROJECT_SHARED \<or> mr_scope_type row = AGENT_TYPE \<and> mr_scope_id row = Some (agent_type_value (ps_agent_type_id scope))"
    "killswitch_overlay cfg (mr_mem_type row) \<noteq> Some True"
    "signals_for f r = ok sig" "abstention_decide sig (abstention cfg) = ok dec" "ad_inject dec"
    "cs_memory_id x = Some (memory_value (mr_memory_id row))" "cs_text x = mr_content row" "cs_tokens x = mr_token_count row" "cs_slot x = slot_for row"
    using run_gatekeeping [OF assms] by blast
  moreover have "fc_memory_id f \<in> set (map fc_memory_id fs)" using a(3) by simp
  ultimately show ?thesis unfolding slot_permitted_def
    by (intro exI [of _ "map fc_memory_id fs"] exI [of _ fetched] exI [of _ row] exI [of _ f] exI [of _ r] exI [of _ sig] exI [of _ dec] conjI) assumption+
qed

lemma run_result_sound: "assembly_run env d scope q fs cfg = Inr res \<Longrightarrow> distinct (map fc_memory_id fs) \<Longrightarrow> result_sound cfg res"
  unfolding result_sound_def by (rule run_accounting)

section \<open>Properties\<close>


text \<open>C12. The injection log and the code are true to the slots: for candidates with distinct identifiers (fusion gives
  no other) there is exactly one injection row per slot, with the slot's memory, slot and tokens; the slots fit
  the total budget, in placement order, each memory once; the code is \<open>injected\<close> exactly when something was
  placed, and otherwise an abstention or the empty result, never a degradation code.\<close>

theorem assembly_accounting:
  assumes "assembly_run env d scope q fs cfg = Inr res" "distinct (map fc_memory_id fs)"
  shows "distinct (map ir_memory_id (csr_injections res)) \<and> distinct (map cs_memory_id (csr_slots res)) \<and>
     set (map (\<lambda>i. (Some (memory_value (ir_memory_id i)), ir_slot i, ir_tokens i)) (csr_injections res)) =
       set (map (\<lambda>x. (cs_memory_id x, cs_slot x, cs_tokens x)) (csr_slots res)) \<and>
     sum_list (map cs_tokens (csr_slots res)) \<le> max (bc_total_tokens (budget cfg)) 0 \<and>
     sorted (map (slot_rank \<circ> cs_slot) (csr_slots res)) \<and>
     (csr_outcome_code res = INJECTED \<longleftrightarrow> csr_slots res \<noteq> []) \<and>
     csr_outcome_code res \<in> {INJECTED, ABSTAINED_THRESHOLD, ABSTAINED_RARITY, EMPTY_RESULT}"
  by (rule run_accounting [OF assms])

section \<open>Witnesses\<close>

definition sample_text :: pystr where
  "sample_text = [97, 98, 32, 99, 100]"

definition sample_memory_row :: memory_row where
  "sample_memory_row = \<lparr>mr_memory_id = MemoryId 5, mr_mem_type = SEMANTIC, mr_trust_tier = TierB, mr_status = VALIDATED, mr_content = sample_text,
     mr_token_count = 12, mr_q_value = Fin (1 / 2), mr_confidence = Fin 1, mr_created_at = 0, mr_scope_type = PROJECT_SHARED, mr_scope_id = None\<rparr>"

definition sample_env :: assembly_env where
  "sample_env = \<lparr>env_now = (\<lambda>_. 0), env_now_after = (\<lambda>_. 0), env_now_ms = 0, env_fetch = (\<lambda>_ _. Inr [sample_memory_row]),
     env_corpus = (\<lambda>_. Inr 300), env_frequency = (\<lambda>_ _. Inr (\<lambda>_. Some 3))\<rparr>"

definition sample_fused :: fused_candidate where
  "sample_fused = \<lparr>fc_memory_id = MemoryId 5, fc_trust_tier = TierB, fc_status = VALIDATED, fc_fused_rank = 1,
     fc_lexical = Some \<lparr>as_raw_score = 20, as_rank = 1\<rparr>, fc_vector = None\<rparr>"

definition sample_scope :: project_scope where
  "sample_scope = \<lparr>ps_project_id = ProjectId 1, ps_agent_type_id = AgentTypeId 2, ps_principal_id = PrincipalId 3\<rparr>"

definition sample_request :: "unit deadline" where
  "sample_request = \<lparr>dl_total_budget_ms = 300, dl_embed_timeout_ms = 200, dl_started_at_ms = 0, dl_listeners = [], dl_next_listener_id = 0\<rparr>"

lemma sample_terms: "query_terms sample_text = [[97, 98], [99, 100]]"
  by (simp add: query_terms_def sample_text_def lower_cp_def findall_terms.simps is_term_cp_def)

lemma sample_time: "\<not> total_exceeded 0 sample_request"
  by (simp add: sample_request_def total_exceeded_def remaining_ms_def elapsed_ms_def)

lemma sample_rarity_lookup:
  "rarity_lookup sample_env sample_request p sample_text [sample_memory_row] =
     Inr (\<lambda>i. if i = MemoryId 5 then Some \<lparr>re_shared_term_doc_freq_pct = [1, 1], re_corpus_doc_count = 300\<rparr> else None)"
proof -
  have "shared_pcts (query_terms sample_text) (\<lambda>_. Some 3) 300 sample_memory_row = [Fin 1, Fin 1]"
    by (simp add: shared_pcts_def sample_terms sample_memory_row_def)
  then show ?thesis
    by (simp add: rarity_lookup_def guarded_call_def sample_env_def sample_time sample_terms mk_rarity_evidence_def lift_py_def) (simp add: sample_memory_row_def)
qed

lemma sample_signals_ok: "signals_for sample_fused \<lparr>re_shared_term_doc_freq_pct = [1, 1], re_corpus_doc_count = 300\<rparr> =
  ok \<lparr>csig_cos_sim = None, csig_bm25_raw = Some 20, csig_rarity = \<lparr>re_shared_term_doc_freq_pct = [1, 1], re_corpus_doc_count = 300\<rparr>\<rparr>"
  by (simp add: signals_for_def sample_fused_def mk_candidate_signals_def)

lemma sample_score: "score_row default_config 0 sample_fused sample_memory_row = ok (9 / 20)"
  by (simp add: score_row_def mk_calibrated_signals_def sample_fused_def sample_memory_row_def age_days_def calibrated_score_def recency_weight_def default_config_def)

lemma sample_candidate_for: "\<exists>c. candidate_for sample_memory_row x = ok c \<and> cd_slot c = FACT \<and> cd_tokens c = 12 \<and> cd_memory_id c = MemoryId 5 \<and> cd_mem_type c = SEMANTIC \<and> wf_candidate c"
proof -
  have "\<exists>bs. utf8_encode sample_text = ok bs" by (simp add: utf8_encode_ok encodable_def sample_text_def is_high_def is_low_def)
  then obtain bs where bs: "utf8_encode sample_text = ok bs" by blast
  have "sha256_hex bs \<noteq> []" using length_sha256_hex [of bs] by (metis length_0_conv zero_neq_numeral)
  then have "\<exists>c. candidate_for sample_memory_row x = ok c"
    using bs by (simp add: candidate_for_def mk_candidate_def sample_memory_row_def sample_text_def strip_cp_def is_space_cp_def)
  then obtain c where "candidate_for sample_memory_row x = ok c" by blast
  then show ?thesis using candidate_for_ok [of sample_memory_row x c]
    by (auto simp: sample_memory_row_def slot_for_def slot_by_mem_type_def)
qed

lemma sample_decision:
  "\<exists>dec. abstention_decide \<lparr>csig_cos_sim = None, csig_bm25_raw = Some 20, csig_rarity = \<lparr>re_shared_term_doc_freq_pct = [1, 1], re_corpus_doc_count = 300\<rparr>\<rparr>
     (abstention default_config) = ok dec \<and> ad_inject dec"
  by (simp add: abstention_decide_def rarity_gate_passes_def rare_shared_term_count_def default_config_def bm25_saturate_def)

lemma sample_considered: "\<exists>c. consider_all default_config 0 (scope_vis sample_scope) [MemoryId 5 \<mapsto> sample_memory_row]
    (\<lambda>i. if i = MemoryId 5 then Some \<lparr>re_shared_term_doc_freq_pct = [1, 1], re_corpus_doc_count = 300\<rparr> else None) [sample_fused]
    \<lparr>ls_injectable = [], ls_abstentions = [], ls_best_score = None\<rparr> =
  ok \<lparr>ls_injectable = [c], ls_abstentions = [], ls_best_score = Some (9 / 20)\<rparr> \<and> cd_slot c = FACT \<and> cd_tokens c = 12 \<and> cd_memory_id c = MemoryId 5"
proof -
  obtain c where c: "candidate_for sample_memory_row (9 / 20) = ok c" "cd_slot c = FACT" "cd_tokens c = 12" "cd_memory_id c = MemoryId 5"
    using sample_candidate_for by blast
  obtain dec where dec: "abstention_decide \<lparr>csig_cos_sim = None, csig_bm25_raw = Some 20, csig_rarity = \<lparr>re_shared_term_doc_freq_pct = [1, 1], re_corpus_doc_count = 300\<rparr>\<rparr>
     (abstention default_config) = ok dec" "ad_inject dec" using sample_decision by blast
  have id: "fc_memory_id sample_fused = MemoryId 5" by (simp add: sample_fused_def)
  have row: "assert_dynamically_retrievable (mr_status sample_memory_row) (mr_trust_tier sample_memory_row) = ok ()"
    "scope_visible (mr_scope_type sample_memory_row) (mr_scope_id sample_memory_row) (scope_vis sample_scope)"
    "\<not> killswitched (mr_mem_type sample_memory_row) default_config"
    by (simp_all add: sample_memory_row_def assert_retrievable_ok killswitched_def default_config_def)
  show ?thesis using c
    by (intro exI [of _ c]) (simp add: consider_one_def id row judge_def sample_signals_ok dec sample_score c(1))
qed

lemma sample_assembled:
  assumes "cd_slot c = FACT" "cd_tokens c = 12"
  shows "ax_slots (assemble default_config [c]) \<noteq> []"
proof -
  have d: "dedup [c] = [c]" by (simp add: dedup_def collapse_def collapse_step_def)
  show ?thesis
    by (simp add: assemble_def select_def d assms pack_def fill_slot_def DYNAMIC_SLOTS_def SLOT_ORDER_def clamp_def pack_step_def default_config_def)
qed

lemma sample_run: "\<exists>res. assembly_run sample_env sample_request sample_scope sample_text [sample_fused] default_config = Inr res \<and> csr_slots res \<noteq> []"
proof -
  obtain c where c: "consider_all default_config 0 (scope_vis sample_scope) [MemoryId 5 \<mapsto> sample_memory_row]
    (\<lambda>i. if i = MemoryId 5 then Some \<lparr>re_shared_term_doc_freq_pct = [1, 1], re_corpus_doc_count = 300\<rparr> else None) [sample_fused]
    \<lparr>ls_injectable = [], ls_abstentions = [], ls_best_score = None\<rparr> =
    ok \<lparr>ls_injectable = [c], ls_abstentions = [], ls_best_score = Some (9 / 20)\<rparr>" "cd_slot c = FACT" "cd_tokens c = 12"
    using sample_considered by blast
  have slots: "ax_slots (assemble default_config [c]) \<noteq> []" by (rule sample_assembled [OF c(2, 3)])
  have rows: "rows_dict [sample_memory_row] = [(MemoryId 5, sample_memory_row)]" by (simp add: rows_dict_def sample_memory_row_def)
  have env: "env_fetch sample_env p i = Inr [sample_memory_row]" "env_now sample_env k = 0" "env_now_after sample_env k = 0" "env_now_ms sample_env = 0" for p i k
    by (simp_all add: sample_env_def)
  show ?thesis using slots
    by (simp add: assembly_run_def guarded_call_def env sample_time rows sample_rarity_lookup scope_vis_def [symmetric] c(1) lift_py_def Let_def del: consider_all.simps)
qed


theorem assembly_accounting_witness:
  "\<exists>res. assembly_run sample_env sample_request sample_scope sample_text [sample_fused] default_config = Inr res \<and>
     distinct (map fc_memory_id [sample_fused]) \<and> csr_outcome_code res = INJECTED \<and> sum_list (map cs_tokens (csr_slots res)) \<le> 1200"
proof -
  obtain res where res: "assembly_run sample_env sample_request sample_scope sample_text [sample_fused] default_config = Inr res" "csr_slots res \<noteq> []"
    using sample_run by blast
  then show ?thesis using assembly_accounting [OF res(1)]
    by (intro exI [of _ res]) (auto simp: default_config_def)
qed

end
