(* ===== verification/Retriever.thy ===== *)
theory Retriever
  imports Assembly
begin

text \<open>
  Hybrid retrieval, \<open>src/src/tracebed/hotpath/retriever.py\<close>: the two search arms on a pool of two workers, the
  embedding under its own sub-budget, fusion and the cut. The first part is \<open>retrieve\<close> itself; what a future
  delivers, the embedder, the store and the clock readings are the fields of an environment. The second part is the
  worker pool with its admission control, as a step relation over submissions, starts and completions.
\<close>

section \<open>Arms\<close>

definition ARM_WORKER_COUNT :: nat where
  "ARM_WORKER_COUNT = 2"

text \<open>What awaiting the future of an arm gives.\<close>

datatype arm_wait = ArmHits "arm_hit list" | ArmAbandoned | WaitExpired | ArmRaised store_exc

definition await_arm :: "arm_wait \<Rightarrow> store_exc + arm_hit list \<times> bool" where
  "await_arm w =
     (case w of
        ArmHits hits \<Rightarrow> Inr (hits, False)
      | ArmAbandoned \<Rightarrow> Inr ([], True)
      | WaitExpired \<Rightarrow> Inr ([], True)
      | ArmRaised e \<Rightarrow> Inl e)"

definition arm_pool_is_wedged :: "real list \<Rightarrow> real \<Rightarrow> bool" where
  "arm_pool_is_wedged running_deadlines now_ms =
     (if length running_deadlines < ARM_WORKER_COUNT then False
      else list_all (\<lambda>d. now_ms \<ge> d) running_deadlines)"

definition run_arm :: "real \<Rightarrow> real \<Rightarrow> 'l deadline \<Rightarrow> store_exc + arm_hit list \<Rightarrow> arm_wait" where
  "run_arm started after d call =
     (if total_exceeded started d then ArmAbandoned
      else case call of
             Inr hits \<Rightarrow> ArmHits hits
           | Inl e \<Rightarrow>
               if e = PoolDeadlineExceeded then ArmAbandoned
               else if is_expired_deadline_query_cancellation e after d then ArmAbandoned
               else ArmRaised e)"

text \<open>The submission of an arm and the wait for it: the running deadlines and the clock at submission, the clock when a
  worker starts it and after it raised, and whether the wait runs out first.\<close>

record arm_env =
  ae_running :: "real list"
  ae_now :: real
  ae_started :: real
  ae_after :: real
  ae_expired :: bool

definition submit_arm :: "arm_env \<Rightarrow> 'l deadline \<Rightarrow> store_exc + arm_hit list \<Rightarrow> arm_wait" where
  "submit_arm a d call =
     (if arm_pool_is_wedged (ae_running a) (ae_now a) then ArmAbandoned
      else if ae_expired a then WaitExpired
      else run_arm (ae_started a) (ae_after a) d call)"

section \<open>Retrieve\<close>

datatype embed_exc = EmbeddingTimeout | EmbeddingProviderError | EmbedderException

datatype retriever_error = ArmFailed store_exc | EmbedderFailed | RetrieverError py_error

record retriever_env =
  hr_now :: real
  hr_embed_start :: real
  hr_embed_budget :: real
  hr_embed_end :: real
  hr_lexical_arm :: arm_env
  hr_vector_arm :: arm_env
  hr_lexical :: "project_id \<Rightarrow> pystr \<Rightarrow> int \<Rightarrow> store_exc + arm_hit list"
  hr_vector :: "project_id \<Rightarrow> real list \<Rightarrow> retrieval_config \<Rightarrow> store_exc + arm_hit list"
  hr_embed :: "pystr list \<Rightarrow> int \<Rightarrow> embed_exc + real list list"

record retrieval_outcome =
  ro_candidates :: "fused_candidate list"
  ro_degraded :: bool
  ro_embed_latency_ms :: int
  ro_candidates_considered :: nat

definition embed_timeout :: "retriever_env \<Rightarrow> 'l deadline \<Rightarrow> retrieval_config \<Rightarrow> int" where
  "embed_timeout env d cfg = \<lceil>min (real_of_int (rc_embed_timeout_ms cfg)) (embed_sub_budget_ms (hr_embed_budget env) d)\<rceil>"

text \<open>The embedding stage: the vector, if any, and whether the stage degraded.\<close>

definition embed_query :: "retriever_env \<Rightarrow> 'l deadline \<Rightarrow> retrieval_config \<Rightarrow> pystr \<Rightarrow> retriever_error + real list option \<times> bool" where
  "embed_query env d cfg query_text =
     (if embed_timeout env d cfg \<le> 0 then Inr (None, True)
      else case hr_embed env [query_text] (embed_timeout env d cfg) of
             Inr vectors \<Rightarrow> (case vectors of [] \<Rightarrow> Inr (None, True) | v # _ \<Rightarrow> Inr (Some v, False))
           | Inl EmbeddingTimeout \<Rightarrow> Inr (None, True)
           | Inl EmbeddingProviderError \<Rightarrow> Inr (None, True)
           | Inl EmbedderException \<Rightarrow> Inl EmbedderFailed)"

definition lift_arm :: "store_exc + 'a \<Rightarrow> retriever_error + 'a" where
  "lift_arm r = (case r of Inl e \<Rightarrow> Inl (ArmFailed e) | Inr x \<Rightarrow> Inr x)"

definition lift_retriever :: "'a res \<Rightarrow> retriever_error + 'a" where
  "lift_retriever r = (case r of Inl e \<Rightarrow> Inl (RetrieverError e) | Inr x \<Rightarrow> Inr x)"

definition retriever_retrieve :: "retriever_env \<Rightarrow> project_id \<Rightarrow> pystr \<Rightarrow> retrieval_config \<Rightarrow> 'l deadline \<Rightarrow> retriever_error + retrieval_outcome" where
  "retriever_retrieve env p query_text cfg d =
     (let lexical_future = submit_arm (hr_lexical_arm env) d (hr_lexical env p query_text (rc_arm_top_n cfg))
      in bind_res (embed_query env d cfg query_text) (\<lambda>(embedding, degraded).
         let embed_latency_ms = max 0 \<lfloor>hr_embed_end env - hr_embed_start env\<rfloor>;
             vector_future = map_option (\<lambda>v. submit_arm (hr_vector_arm env) d (hr_vector env p v cfg)) embedding
         in bind_res (lift_arm (await_arm lexical_future)) (\<lambda>(lexical_hits, lexical_timed_out).
            bind_res (case vector_future of None \<Rightarrow> Inr ([], False) | Some f \<Rightarrow> lift_arm (await_arm f)) (\<lambda>(vector_hits, vector_timed_out).
            bind_res (lift_retriever (fuse lexical_hits vector_hits (rc_rrf_k cfg) (rc_rrf_weight_lexical cfg) (rc_rrf_weight_vector cfg))) (\<lambda>fused.
              let keep = (if rc_fused_top_n cfg > 0 then rc_fused_top_n cfg else 0);
                  considered = card (set (map ah_memory_id lexical_hits) \<union> set (map ah_memory_id vector_hits))
              in Inr \<lparr>ro_candidates = take (nat keep) fused, ro_degraded = (degraded \<or> lexical_timed_out \<or> vector_timed_out),
                      ro_embed_latency_ms = embed_latency_ms, ro_candidates_considered = considered\<rparr>)))))"

text \<open>\<open>retrieve\<close> without a deadline: one anchored at its own entry.\<close>

definition retriever_retrieve_standalone :: "retriever_env \<Rightarrow> project_id \<Rightarrow> pystr \<Rightarrow> retrieval_config \<Rightarrow> retriever_error + retrieval_outcome" where
  "retriever_retrieve_standalone env p query_text cfg =
     bind_res (lift_retriever (deadline_init (hr_now env) (rc_total_budget_ms cfg) (rc_embed_timeout_ms cfg) None :: unit deadline res))
       (retriever_retrieve env p query_text cfg)"

section \<open>What retrieve returns\<close>

text \<open>An arm fails only when its store call raised something other than the deadline while its caller still waited.\<close>

definition arm_delivers :: "arm_wait \<Rightarrow> arm_hit list" where
  "arm_delivers w = (case w of ArmHits hits \<Rightarrow> hits | _ \<Rightarrow> [])"

lemma await_arm_eq:
  "await_arm w = (case w of ArmRaised e \<Rightarrow> Inl e | _ \<Rightarrow> Inr (arm_delivers w, \<forall>hits. w \<noteq> ArmHits hits))"
  by (cases w) (simp_all add: await_arm_def arm_delivers_def)

definition lexical_wait :: "retriever_env \<Rightarrow> project_id \<Rightarrow> pystr \<Rightarrow> retrieval_config \<Rightarrow> 'l deadline \<Rightarrow> arm_wait" where
  "lexical_wait env p q cfg d = submit_arm (hr_lexical_arm env) d (hr_lexical env p q (rc_arm_top_n cfg))"

definition query_vector :: "retriever_env \<Rightarrow> 'l deadline \<Rightarrow> retrieval_config \<Rightarrow> pystr \<Rightarrow> real list option" where
  "query_vector env d cfg q =
     (if embed_timeout env d cfg \<le> 0 then None
      else case hr_embed env [q] (embed_timeout env d cfg) of Inr (v # _) \<Rightarrow> Some v | _ \<Rightarrow> None)"

definition vector_wait :: "retriever_env \<Rightarrow> project_id \<Rightarrow> pystr \<Rightarrow> retrieval_config \<Rightarrow> 'l deadline \<Rightarrow> arm_wait" where
  "vector_wait env p q cfg d =
     (case query_vector env d cfg q of None \<Rightarrow> ArmAbandoned | Some v \<Rightarrow> submit_arm (hr_vector_arm env) d (hr_vector env p v cfg))"

definition embedder_fails :: "retriever_env \<Rightarrow> 'l deadline \<Rightarrow> retrieval_config \<Rightarrow> pystr \<Rightarrow> bool" where
  "embedder_fails env d cfg q \<longleftrightarrow> 0 < embed_timeout env d cfg \<and> hr_embed env [q] (embed_timeout env d cfg) = Inl EmbedderException"

lemma embed_query_eq:
  "embed_query env d cfg q =
     (if embedder_fails env d cfg q then Inl EmbedderFailed else Inr (query_vector env d cfg q, query_vector env d cfg q = None))"
  by (auto simp: embed_query_def embedder_fails_def query_vector_def split: sum.splits list.splits embed_exc.splits)

definition fused_list_of :: "retriever_env \<Rightarrow> project_id \<Rightarrow> pystr \<Rightarrow> retrieval_config \<Rightarrow> 'l deadline \<Rightarrow> fused_candidate list res" where
  "fused_list_of env p q cfg d =
     fuse (arm_delivers (lexical_wait env p q cfg d)) (arm_delivers (vector_wait env p q cfg d))
       (rc_rrf_k cfg) (rc_rrf_weight_lexical cfg) (rc_rrf_weight_vector cfg)"

lemma retriever_retrieve_eq:
  assumes "\<not> embedder_fails env d cfg q" "\<forall>e. lexical_wait env p q cfg d \<noteq> ArmRaised e" "\<forall>e. vector_wait env p q cfg d \<noteq> ArmRaised e"
    "fused_list_of env p q cfg d = ok fused"
  shows "retriever_retrieve env p q cfg d = Inr
    \<lparr>ro_candidates = take (nat (rc_fused_top_n cfg)) fused,
     ro_degraded = ((\<forall>hits. lexical_wait env p q cfg d \<noteq> ArmHits hits) \<or> (\<forall>hits. vector_wait env p q cfg d \<noteq> ArmHits hits)),
     ro_embed_latency_ms = max 0 \<lfloor>hr_embed_end env - hr_embed_start env\<rfloor>,
     ro_candidates_considered = card (ah_memory_id ` set (arm_delivers (lexical_wait env p q cfg d)) \<union> ah_memory_id ` set (arm_delivers (vector_wait env p q cfg d)))\<rparr>"
proof -
  have l: "lift_arm (await_arm (lexical_wait env p q cfg d)) = Inr (arm_delivers (lexical_wait env p q cfg d), \<forall>hits. lexical_wait env p q cfg d \<noteq> ArmHits hits)"
    using assms(2) by (cases "lexical_wait env p q cfg d") (simp_all add: await_arm_eq lift_arm_def)
  show ?thesis
  proof (cases "query_vector env d cfg q")
    case None
    then have v: "vector_wait env p q cfg d = ArmAbandoned" by (simp add: vector_wait_def)
    show ?thesis using assms(1,4) l None
      by (simp add: retriever_retrieve_def embed_query_eq lexical_wait_def [symmetric] fused_list_of_def lift_retriever_def v arm_delivers_def Let_def)
  next
    case (Some vec)
    then have v: "submit_arm (hr_vector_arm env) d (hr_vector env p vec cfg) = vector_wait env p q cfg d" by (simp add: vector_wait_def)
    have "lift_arm (await_arm (vector_wait env p q cfg d)) = Inr (arm_delivers (vector_wait env p q cfg d), \<forall>hits. vector_wait env p q cfg d \<noteq> ArmHits hits)"
      using assms(3) by (cases "vector_wait env p q cfg d") (simp_all add: await_arm_eq lift_arm_def)
    then show ?thesis using assms(1,4) l Some
      by (simp add: retriever_retrieve_def embed_query_eq lexical_wait_def [symmetric] v fused_list_of_def lift_retriever_def Let_def)
  qed
qed

lemma retriever_retrieve_Inr:
  assumes "retriever_retrieve env p q cfg d = Inr out"
  obtains fused where "\<not> embedder_fails env d cfg q" "\<forall>e. lexical_wait env p q cfg d \<noteq> ArmRaised e" "\<forall>e. vector_wait env p q cfg d \<noteq> ArmRaised e"
    "fused_list_of env p q cfg d = ok fused"
proof -
  have nf: "\<not> embedder_fails env d cfg q" using assms by (auto simp: retriever_retrieve_def embed_query_eq Let_def)
  have l: "\<forall>e. lexical_wait env p q cfg d \<noteq> ArmRaised e"
    using assms nf by (auto simp: retriever_retrieve_def embed_query_eq lexical_wait_def [symmetric] await_arm_eq lift_arm_def Let_def)
  have v: "\<forall>e. vector_wait env p q cfg d \<noteq> ArmRaised e"
  proof (intro allI notI)
    fix e assume e: "vector_wait env p q cfg d = ArmRaised e"
    then obtain vec where vec: "query_vector env d cfg q = Some vec" by (cases "query_vector env d cfg q") (auto simp: vector_wait_def)
    then have "submit_arm (hr_vector_arm env) d (hr_vector env p vec cfg) = ArmRaised e" using e by (simp add: vector_wait_def)
    then show False using assms nf vec
      by (auto simp: retriever_retrieve_def embed_query_eq Let_def bind_res_Inr_iff await_arm_eq lift_arm_def)
  qed
  show ?thesis
  proof (cases "fused_list_of env p q cfg d")
    case (Inr fused)
    then show ?thesis using that nf l v by blast
  next
    case (Inl e)
    have False
    proof (cases "query_vector env d cfg q")
      case None
      then show False using assms nf Inl l
        by (cases "lexical_wait env p q cfg d")
          (auto simp: retriever_retrieve_def embed_query_eq lexical_wait_def [symmetric] vector_wait_def fused_list_of_def lift_retriever_def lift_arm_def await_arm_def arm_delivers_def Let_def)
    next
      case (Some vec)
      then have s: "submit_arm (hr_vector_arm env) d (hr_vector env p vec cfg) = vector_wait env p q cfg d" by (simp add: vector_wait_def)
      show False using assms nf Inl l v Some
        by (cases "lexical_wait env p q cfg d"; cases "vector_wait env p q cfg d")
          (auto simp: retriever_retrieve_def embed_query_eq lexical_wait_def [symmetric] s fused_list_of_def lift_retriever_def lift_arm_def await_arm_def arm_delivers_def Let_def)
    qed
    then show ?thesis ..
  qed
qed

lemma fused_list_ok:
  "(\<exists>fused. fused_list_of env p q cfg d = ok fused) \<longleftrightarrow> 0 < rc_rrf_k cfg \<and> 0 \<le> rc_rrf_weight_lexical cfg \<and> 0 \<le> rc_rrf_weight_vector cfg"
proof
  assume "\<exists>fused. fused_list_of env p q cfg d = ok fused"
  then show "0 < rc_rrf_k cfg \<and> 0 \<le> rc_rrf_weight_lexical cfg \<and> 0 \<le> rc_rrf_weight_vector cfg"
    by (auto simp: fused_list_of_def fuse_def split: if_splits)
qed (simp add: fused_list_of_def fuse_eq)

lemma fused_list_facts:
  assumes "fused_list_of env p q cfg d = ok fused"
  shows "distinct (map fc_memory_id fused)"
    "set (map fc_memory_id fused) = ah_memory_id ` set (arm_delivers (lexical_wait env p q cfg d)) \<union> ah_memory_id ` set (arm_delivers (vector_wait env p q cfg d))"
proof -
  have "0 < rc_rrf_k cfg" "0 \<le> rc_rrf_weight_lexical cfg" "0 \<le> rc_rrf_weight_vector cfg"
    using assms fused_list_ok by blast+
  then have ids: "map fc_memory_id fused = fused_ids (arm_delivers (lexical_wait env p q cfg d)) (arm_delivers (vector_wait env p q cfg d))
      (rc_rrf_k cfg) (rc_rrf_weight_lexical cfg) (rc_rrf_weight_vector cfg)"
    using assms fused_list(1) by (simp only: fused_list_of_def fuse_eq sum.inject) metis
  show "distinct (map fc_memory_id fused)" unfolding ids by (rule fused_ids_distinct)
  show "set (map fc_memory_id fused) = ah_memory_id ` set (arm_delivers (lexical_wait env p q cfg d)) \<union> ah_memory_id ` set (arm_delivers (vector_wait env p q cfg d))"
    unfolding ids by (simp add: fused_ids_def)
qed

lemma retriever_returns_iff:
  "(\<exists>out. retriever_retrieve env p q cfg d = Inr out) \<longleftrightarrow>
     \<not> embedder_fails env d cfg q \<and> (\<forall>e. lexical_wait env p q cfg d \<noteq> ArmRaised e) \<and> (\<forall>e. vector_wait env p q cfg d \<noteq> ArmRaised e) \<and>
     0 < rc_rrf_k cfg \<and> 0 \<le> rc_rrf_weight_lexical cfg \<and> 0 \<le> rc_rrf_weight_vector cfg"
proof
  assume "\<exists>out. retriever_retrieve env p q cfg d = Inr out"
  then show "\<not> embedder_fails env d cfg q \<and> (\<forall>e. lexical_wait env p q cfg d \<noteq> ArmRaised e) \<and> (\<forall>e. vector_wait env p q cfg d \<noteq> ArmRaised e) \<and>
     0 < rc_rrf_k cfg \<and> 0 \<le> rc_rrf_weight_lexical cfg \<and> 0 \<le> rc_rrf_weight_vector cfg"
    using fused_list_ok [of env p q cfg d] retriever_retrieve_Inr by metis
next
  assume a: "\<not> embedder_fails env d cfg q \<and> (\<forall>e. lexical_wait env p q cfg d \<noteq> ArmRaised e) \<and> (\<forall>e. vector_wait env p q cfg d \<noteq> ArmRaised e) \<and>
     0 < rc_rrf_k cfg \<and> 0 \<le> rc_rrf_weight_lexical cfg \<and> 0 \<le> rc_rrf_weight_vector cfg"
  then obtain fused where "fused_list_of env p q cfg d = ok fused" using fused_list_ok by blast
  then show "\<exists>out. retriever_retrieve env p q cfg d = Inr out" using retriever_retrieve_eq a by blast
qed

lemma submit_arm_raised:
  "submit_arm a d call = ArmRaised e \<longleftrightarrow>
     \<not> arm_pool_is_wedged (ae_running a) (ae_now a) \<and> \<not> ae_expired a \<and> \<not> total_exceeded (ae_started a) d \<and> call = Inl e \<and>
     e \<noteq> PoolDeadlineExceeded \<and> \<not> is_expired_deadline_query_cancellation e (ae_after a) d"
  by (auto simp: submit_arm_def run_arm_def split: sum.splits)

lemma submit_arm_hits: "submit_arm a d call = ArmHits hits \<Longrightarrow> call = Inr hits"
  by (auto simp: submit_arm_def run_arm_def split: sum.splits if_splits)

text \<open>What the pipeline relies on.\<close>

lemma retriever_outcome_facts:
  assumes "retriever_retrieve env p q cfg d = Inr out"
  shows "distinct (map fc_memory_id (ro_candidates out))" "int (length (ro_candidates out)) \<le> max 0 (rc_fused_top_n cfg)"
    "length (ro_candidates out) \<le> ro_candidates_considered out" "0 \<le> ro_embed_latency_ms out"
proof -
  obtain fused where f: "\<not> embedder_fails env d cfg q" "\<forall>e. lexical_wait env p q cfg d \<noteq> ArmRaised e" "\<forall>e. vector_wait env p q cfg d \<noteq> ArmRaised e"
    "fused_list_of env p q cfg d = ok fused" using retriever_retrieve_Inr [OF assms] by blast
  have out: "ro_candidates out = take (nat (rc_fused_top_n cfg)) fused" "0 \<le> ro_embed_latency_ms out"
    "ro_candidates_considered out = card (set (map fc_memory_id fused))"
    using retriever_retrieve_eq [OF f] assms fused_list_facts(2) [OF f(4)] by simp_all
  show "distinct (map fc_memory_id (ro_candidates out))" using fused_list_facts(1) [OF f(4)] by (simp add: out take_map [symmetric])
  show "int (length (ro_candidates out)) \<le> max 0 (rc_fused_top_n cfg)" by (simp add: out)
  have "card (set (map fc_memory_id fused)) = length fused" using distinct_card [OF fused_list_facts(1) [OF f(4)]] by simp
  then show "length (ro_candidates out) \<le> ro_candidates_considered out" by (simp add: out)
  show "0 \<le> ro_embed_latency_ms out" by (rule out)
qed

section \<open>The worker pool\<close>

text \<open>
  The executor with its two workers and its queue, and the admission test in front of it. A submission is refused when
  every worker runs an arm past its deadline; a worker that is free takes the oldest task, registers the deadline of its
  caller and calls the store only if that deadline has not passed; a finished arm frees its worker. Taking a task and
  registering its deadline are one step.
\<close>

record arm_pool =
  ap_running :: "(nat \<times> real) list"
  ap_queue :: "nat list"
  ap_submitted :: nat
  ap_called :: "nat list"

datatype arm_event = Submit real | Start real real | Finish nat

definition arm_pool_init :: arm_pool where
  "arm_pool_init = \<lparr>ap_running = [], ap_queue = [], ap_submitted = 0, ap_called = []\<rparr>"

definition wedged :: "arm_pool \<Rightarrow> real \<Rightarrow> bool" where
  "wedged p now_ms = arm_pool_is_wedged (map snd (ap_running p)) now_ms"

inductive arm_step :: "arm_pool \<Rightarrow> arm_event \<Rightarrow> arm_pool \<Rightarrow> bool" where
  refuse: "wedged p t \<Longrightarrow> arm_step p (Submit t) p"
| admit: "\<not> wedged p t \<Longrightarrow> arm_step p (Submit t) (p\<lparr>ap_queue := ap_queue p @ [ap_submitted p], ap_submitted := Suc (ap_submitted p)\<rparr>)"
| start: "length (ap_running p) < ARM_WORKER_COUNT \<Longrightarrow> ap_queue p = tok # rest \<Longrightarrow>
    arm_step p (Start expiry t) (p\<lparr>ap_running := ap_running p @ [(tok, expiry)], ap_queue := rest,
      ap_called := (if expiry \<le> t then ap_called p else ap_called p @ [tok])\<rparr>)"
| finish: "tok \<in> fst ` set (ap_running p) \<Longrightarrow>
    arm_step p (Finish tok) (p\<lparr>ap_running := filter (\<lambda>r. fst r \<noteq> tok) (ap_running p)\<rparr>)"

inductive arm_run :: "arm_pool \<Rightarrow> arm_event list \<Rightarrow> arm_pool \<Rightarrow> bool" where
  nil: "arm_run p [] p"
| cons: "arm_step p e p' \<Longrightarrow> arm_run p' es p'' \<Longrightarrow> arm_run p (e # es) p''"

inductive_cases SubmitE: "arm_step p (Submit t) p'"
inductive_cases StartE: "arm_step p (Start expiry t) p'"
inductive_cases FinishE: "arm_step p (Finish tok) p'"

definition pool_inv :: "arm_pool \<Rightarrow> bool" where
  "pool_inv p \<longleftrightarrow> length (ap_running p) \<le> ARM_WORKER_COUNT \<and> distinct (map fst (ap_running p) @ ap_queue p) \<and>
     sorted_wrt (<) (ap_queue p) \<and> (\<forall>tok\<in>set (ap_queue p) \<union> fst ` set (ap_running p) \<union> set (ap_called p). tok < ap_submitted p) \<and>
     distinct (ap_called p) \<and> set (ap_called p) \<inter> set (ap_queue p) = {}"

lemma pool_inv_init: "pool_inv arm_pool_init"
  by (simp add: pool_inv_def arm_pool_init_def)

lemma pool_inv_step: "arm_step p e p' \<Longrightarrow> pool_inv p \<Longrightarrow> pool_inv p'"
proof (induction rule: arm_step.induct)
  case (admit p t)
  then show ?case by (auto simp: pool_inv_def sorted_wrt_append less_Suc_eq)
next
  case (start p tok rest expiry t)
  then show ?case by (auto simp: pool_inv_def)
next
  case (finish tok p)
  then show ?case by (auto simp: pool_inv_def intro: le_trans [OF length_filter_le] distinct_map_filter)
qed

lemma pool_inv_run: "arm_run p es p' \<Longrightarrow> pool_inv p \<Longrightarrow> pool_inv p'"
  by (induction rule: arm_run.induct) (auto intro: pool_inv_step)

text \<open>While every worker is stuck and none finishes, nothing changes.\<close>

definition after :: "real \<Rightarrow> arm_event \<Rightarrow> bool" where
  "after t0 e = (case e of Submit t \<Rightarrow> t0 \<le> t | Start _ t \<Rightarrow> t0 \<le> t | Finish _ \<Rightarrow> False)"

lemma wedged_later: "wedged p t \<Longrightarrow> t \<le> t' \<Longrightarrow> wedged p t'"
  by (auto simp: wedged_def arm_pool_is_wedged_def list_all_iff split: if_splits)

lemma wedged_step: "arm_step p e p' \<Longrightarrow> wedged p t \<Longrightarrow> after t e \<Longrightarrow> p' = p"
  by (induction rule: arm_step.induct) (auto simp: after_def wedged_def arm_pool_is_wedged_def list_all_iff split: if_splits)

lemma wedged_run: "arm_run p es p' \<Longrightarrow> wedged p t \<Longrightarrow> list_all (after t) es \<Longrightarrow> p' = p"
  by (induction rule: arm_run.induct) (auto dest: wedged_step)

text \<open>Work left in the pool: a queued task has to be started and finished, a running one finished.\<close>

definition work_left :: "arm_pool \<Rightarrow> nat" where
  "work_left p = 2 * length (ap_queue p) + length (ap_running p)"

definition is_submit :: "arm_event \<Rightarrow> bool" where
  "is_submit e = (case e of Submit _ \<Rightarrow> True | _ \<Rightarrow> False)"

lemma work_step:
  assumes "arm_step p e p'" "\<not> is_submit e"
  shows "work_left p' < work_left p"
  using assms
proof (induction rule: arm_step.induct)
  case (finish tok p)
  then show ?case by (auto simp: work_left_def intro!: length_filter_less)
qed (auto simp: work_left_def is_submit_def)

lemma work_run: "arm_run p es p' \<Longrightarrow> list_all (\<lambda>e. \<not> is_submit e) es \<Longrightarrow> length es + work_left p' \<le> work_left p"
  by (induction rule: arm_run.induct) (auto dest!: work_step)

lemma pool_progress:
  assumes "0 < work_left p"
  shows "\<exists>e p'. arm_step p e p' \<and> \<not> is_submit e"
proof (cases "ap_running p")
  case Nil
  then obtain tok rest where "ap_queue p = tok # rest" using assms by (cases "ap_queue p") (auto simp: work_left_def)
  then show ?thesis using Nil arm_step.start [of p tok rest 0 0]
    by (intro exI [of _ "Start 0 0"] exI) (auto simp: ARM_WORKER_COUNT_def is_submit_def)
next
  case (Cons r rs)
  then have "fst r \<in> fst ` set (ap_running p)" by simp
  then show ?thesis using arm_step.finish [of "fst r" p] by (intro exI [of _ "Finish (fst r)"] exI conjI) (auto simp: is_submit_def)
qed

section \<open>Properties\<close>

text \<open>C13. Retrieval degrades instead of failing: it returns exactly when the embedder raises nothing but a timeout or a
  provider error, no arm whose caller still waits raises a store error of its own, and the fusion settings are valid.
  It then returns the head of the fusion of what the arms delivered, each memory once, at most \<open>fused_top_n\<close>; it
  reports itself degraded exactly when there was no usable embedding or an arm was refused, abandoned or not awaited,
  and otherwise both arms contributed all their hits.\<close>

theorem retriever_degrades:
  "((\<exists>out. retriever_retrieve env p q cfg d = Inr out) \<longleftrightarrow>
      \<not> embedder_fails env d cfg q \<and> \<not> (\<exists>e. lexical_wait env p q cfg d = ArmRaised e) \<and> \<not> (\<exists>e. vector_wait env p q cfg d = ArmRaised e) \<and>
      0 < rc_rrf_k cfg \<and> 0 \<le> rc_rrf_weight_lexical cfg \<and> 0 \<le> rc_rrf_weight_vector cfg) \<and>
   (retriever_retrieve env p q cfg d = Inr out \<longrightarrow>
      (\<exists>fused. fuse (arm_delivers (lexical_wait env p q cfg d)) (arm_delivers (vector_wait env p q cfg d))
          (rc_rrf_k cfg) (rc_rrf_weight_lexical cfg) (rc_rrf_weight_vector cfg) = ok fused \<and>
        ro_candidates out = take (nat (rc_fused_top_n cfg)) fused) \<and>
      distinct (map fc_memory_id (ro_candidates out)) \<and> int (length (ro_candidates out)) \<le> max 0 (rc_fused_top_n cfg) \<and>
      length (ro_candidates out) \<le> ro_candidates_considered out \<and>
      (\<not> ro_degraded out \<longleftrightarrow> (\<exists>v lx vx. query_vector env d cfg q = Some v \<and>
          lexical_wait env p q cfg d = ArmHits lx \<and> hr_lexical env p q (rc_arm_top_n cfg) = Inr lx \<and>
          vector_wait env p q cfg d = ArmHits vx \<and> hr_vector env p v cfg = Inr vx)))"
proof (intro conjI impI)
  show "(\<exists>out. retriever_retrieve env p q cfg d = Inr out) \<longleftrightarrow>
      \<not> embedder_fails env d cfg q \<and> \<not> (\<exists>e. lexical_wait env p q cfg d = ArmRaised e) \<and> \<not> (\<exists>e. vector_wait env p q cfg d = ArmRaised e) \<and>
      0 < rc_rrf_k cfg \<and> 0 \<le> rc_rrf_weight_lexical cfg \<and> 0 \<le> rc_rrf_weight_vector cfg"
    using retriever_returns_iff [of env p q cfg d] by simp
next
  assume out: "retriever_retrieve env p q cfg d = Inr out"
  note facts = retriever_outcome_facts [OF out]
  show "distinct (map fc_memory_id (ro_candidates out))" "int (length (ro_candidates out)) \<le> max 0 (rc_fused_top_n cfg)"
    "length (ro_candidates out) \<le> ro_candidates_considered out" by (rule facts)+
  obtain fused where f: "\<not> embedder_fails env d cfg q" "\<forall>e. lexical_wait env p q cfg d \<noteq> ArmRaised e" "\<forall>e. vector_wait env p q cfg d \<noteq> ArmRaised e"
    "fused_list_of env p q cfg d = ok fused" using retriever_retrieve_Inr [OF out] by blast
  have eq: "ro_candidates out = take (nat (rc_fused_top_n cfg)) fused"
    "ro_degraded out \<longleftrightarrow> (\<forall>hits. lexical_wait env p q cfg d \<noteq> ArmHits hits) \<or> (\<forall>hits. vector_wait env p q cfg d \<noteq> ArmHits hits)"
    using retriever_retrieve_eq [OF f] out by simp_all
  then show "\<exists>fused. fuse (arm_delivers (lexical_wait env p q cfg d)) (arm_delivers (vector_wait env p q cfg d))
      (rc_rrf_k cfg) (rc_rrf_weight_lexical cfg) (rc_rrf_weight_vector cfg) = ok fused \<and> ro_candidates out = take (nat (rc_fused_top_n cfg)) fused"
    using f(4) by (auto simp: fused_list_of_def)
  have "hr_lexical env p q (rc_arm_top_n cfg) = Inr lx" if "lexical_wait env p q cfg d = ArmHits lx" for lx
    by (rule submit_arm_hits [OF that [unfolded lexical_wait_def]])
  moreover have "\<exists>v. query_vector env d cfg q = Some v \<and> hr_vector env p v cfg = Inr vx" if "vector_wait env p q cfg d = ArmHits vx" for vx
    using that by (auto simp: vector_wait_def dest: submit_arm_hits split: option.splits)
  ultimately show "\<not> ro_degraded out \<longleftrightarrow> (\<exists>v lx vx. query_vector env d cfg q = Some v \<and>
      lexical_wait env p q cfg d = ArmHits lx \<and> hr_lexical env p q (rc_arm_top_n cfg) = Inr lx \<and>
      vector_wait env p q cfg d = ArmHits vx \<and> hr_vector env p v cfg = Inr vx)"
    unfolding eq(2) by blast
qed



section \<open>Witnesses\<close>

definition sample_arm :: arm_env where
  "sample_arm = \<lparr>ae_running = [], ae_now = 0, ae_started = 1, ae_after = 2, ae_expired = False\<rparr>"

text \<open>The embedder times out, the lexical arm answers.\<close>

definition sample_retriever :: retriever_env where
  "sample_retriever = \<lparr>hr_now = 0, hr_embed_start = 0, hr_embed_budget = 0, hr_embed_end = 200, hr_lexical_arm = sample_arm, hr_vector_arm = sample_arm,
     hr_lexical = (\<lambda>_ _ _. Inr sample_lexical), hr_vector = (\<lambda>_ _ _. Inr sample_vector), hr_embed = (\<lambda>_ _. Inl EmbeddingTimeout)\<rparr>"

lemma sample_waits:
  "lexical_wait sample_retriever p q (retrieval default_config) sample_request = ArmHits sample_lexical"
  "query_vector sample_retriever sample_request (retrieval default_config) q = None"
  "\<not> embedder_fails sample_retriever sample_request (retrieval default_config) q"
  by (simp_all add: lexical_wait_def query_vector_def embedder_fails_def submit_arm_def run_arm_def sample_retriever_def sample_arm_def sample_request_def
      arm_pool_is_wedged_def ARM_WORKER_COUNT_def total_exceeded_def remaining_ms_def elapsed_ms_def)

lemma default_retrieval:
  "rc_rrf_k (retrieval default_config) = 60" "rc_rrf_weight_lexical (retrieval default_config) = 1" "rc_rrf_weight_vector (retrieval default_config) = 1"
  "rc_fused_top_n (retrieval default_config) = 20"
  by (simp_all add: default_config_def)

theorem retriever_degrades_witness:
  "\<exists>out. retriever_retrieve sample_retriever (ProjectId 1) sample_text (retrieval default_config) sample_request = Inr out \<and>
     ro_degraded out \<and> length (ro_candidates out) \<le> 20"
proof -
  let ?w = "vector_wait sample_retriever (ProjectId 1) sample_text (retrieval default_config) sample_request"
  have v: "?w = ArmAbandoned" by (simp add: vector_wait_def sample_waits)
  obtain out where "retriever_retrieve sample_retriever (ProjectId 1) sample_text (retrieval default_config) sample_request = Inr out"
    using conjunct1 [OF retriever_degrades [of sample_retriever "ProjectId 1" sample_text "retrieval default_config" sample_request]]
    by (auto simp: sample_waits v default_retrieval)
  moreover from this have "ro_degraded out" "length (ro_candidates out) \<le> 20"
    using conjunct2 [OF retriever_degrades [of sample_retriever "ProjectId 1" sample_text "retrieval default_config" sample_request out]]
    by (auto simp: v sample_waits default_retrieval)
  ultimately show ?thesis by blast
qed

definition sample_pool :: arm_pool where
  "sample_pool = \<lparr>ap_running = [(0, 5), (1, 6)], ap_queue = [2], ap_submitted = 3, ap_called = [0, 1]\<rparr>"

lemma sample_pool_run: "arm_run arm_pool_init [Submit 0, Submit 0, Submit 0, Start 5 0, Start 6 0] sample_pool"
proof -
  let ?p1 = "\<lparr>ap_running = [], ap_queue = [0], ap_submitted = 1, ap_called = []\<rparr>"
  let ?p2 = "\<lparr>ap_running = [], ap_queue = [0, 1], ap_submitted = 2, ap_called = []\<rparr>"
  let ?p3 = "\<lparr>ap_running = [], ap_queue = [0, 1, 2], ap_submitted = 3, ap_called = []\<rparr>"
  let ?p4 = "\<lparr>ap_running = [(0, 5)], ap_queue = [1, 2], ap_submitted = 3, ap_called = [0]\<rparr>"
  have a: "arm_step arm_pool_init (Submit 0) ?p1" "arm_step ?p1 (Submit 0) ?p2" "arm_step ?p2 (Submit 0) ?p3"
    using arm_step.admit [of arm_pool_init 0] arm_step.admit [of ?p1 0] arm_step.admit [of ?p2 0]
    by (simp_all add: arm_pool_init_def wedged_def arm_pool_is_wedged_def ARM_WORKER_COUNT_def numeral_2_eq_2 numeral_3_eq_3)
  have b: "arm_step ?p3 (Start 5 0) ?p4" "arm_step ?p4 (Start 6 0) sample_pool"
    using arm_step.start [of ?p3 0 "[1, 2]" 5 0] arm_step.start [of ?p4 1 "[2]" 6 0] by (simp_all add: ARM_WORKER_COUNT_def sample_pool_def)
  show ?thesis
    by (rule arm_run.cons [OF a(1) arm_run.cons [OF a(2) arm_run.cons [OF a(3) arm_run.cons [OF b(1) arm_run.cons [OF b(2) arm_run.nil]]]]])
qed


lemma sample_drain: "arm_run sample_pool [Finish 0] (sample_pool\<lparr>ap_running := [(1, 6)]\<rparr>)"
  using arm_step.finish [of 0 sample_pool] by (intro arm_run.cons [OF _ arm_run.nil]) (simp add: sample_pool_def)


end
