(* ===== verification/Renderer.thy ===== *)
theory Renderer
  imports Templates
begin

text \<open>
  The renderer, \<open>src/src/tracebed/hotpath/renderer.py\<close>: the slots in canonical order and the text block built
  from them, with the \<open>ContextBlock\<close> of \<open>domain/events.py\<close>. A reader of the block (split at newlines, drop the
  structural lines, parse the rest) is the specification the text is held against.
\<close>

section \<open>Definitions\<close>

record context_block =
  cb_header :: string
  cb_slots :: "context_slot list"
  cb_rendered :: pystr

definition empty_context_block :: context_block where
  "empty_context_block = \<lparr>cb_header = MEMORY_HEADER, cb_slots = [], cb_rendered = []\<rparr>"

definition in_canonical_order :: "context_slot list \<Rightarrow> context_slot list" where
  "in_canonical_order xs = concat (map (\<lambda>s. filter (\<lambda>x. cs_slot x = s) xs) SLOT_ORDER)"

fun body_lines :: "slot option \<Rightarrow> context_slot list \<Rightarrow> pystr list res" where
  "body_lines current [] = ok []"
| "body_lines current (x # xs) =
     bind_res (render_entry (cs_slot x) (cs_memory_id x) (cs_tokens x) (cs_text x)) (\<lambda>entry.
     bind_res (body_lines (Some (cs_slot x)) xs) (\<lambda>rest.
       ok ((if Some (cs_slot x) \<noteq> current then [[], cps (SECTION_LABELS (cs_slot x))] else []) @ entry # rest)))"

fun join_lines :: "pystr list \<Rightarrow> pystr" where
  "join_lines [] = []"
| "join_lines [l] = l"
| "join_lines (l # m # ls) = l @ 10 # join_lines (m # ls)"

definition render_text :: "context_slot list \<Rightarrow> pystr res" where
  "render_text ordered =
     (if ordered = [] then ok []
      else bind_res (body_lines None ordered) (\<lambda>ls. ok (join_lines (cps MEMORY_HEADER # ls))))"

definition render :: "context_slot list \<Rightarrow> context_block res" where
  "render xs =
     (let ordered = in_canonical_order xs
      in bind_res (render_text ordered) (\<lambda>t. ok \<lparr>cb_header = MEMORY_HEADER, cb_slots = ordered, cb_rendered = t\<rparr>))"

section \<open>A reader of the block\<close>

fun split_lines :: "pystr \<Rightarrow> pystr list" where
  "split_lines [] = [[]]"
| "split_lines (c # t) = (if c = 10 then [] # split_lines t else (c # hd (split_lines t)) # tl (split_lines t))"

definition entry_lines :: "pystr \<Rightarrow> pystr list" where
  "entry_lines t = filter (\<lambda>l. l \<notin> set STRUCTURAL_LINES) (split_lines t)"

lemma split_lines_nonempty [simp]: "split_lines t \<noteq> []"
  by (induction t) auto

lemma split_lines_append: "10 \<notin> set l \<Longrightarrow> split_lines (l @ 10 # t) = l # split_lines t"
  by (induction l) auto

lemma split_lines_single: "10 \<notin> set l \<Longrightarrow> split_lines l = [l]"
  by (induction l) auto

lemma split_join: "ls \<noteq> [] \<Longrightarrow> \<forall>l\<in>set ls. 10 \<notin> set l \<Longrightarrow> split_lines (join_lines ls) = ls"
  by (induction ls rule: join_lines.induct) (auto simp: split_lines_append split_lines_single)

section \<open>Canonical order\<close>

lemma canonical_set [simp]: "set (in_canonical_order xs) = set xs"
  by (auto simp: in_canonical_order_def)

lemma canonical_filter: "filter (\<lambda>x. cs_slot x = s) (in_canonical_order xs) = filter (\<lambda>x. cs_slot x = s) xs"
proof -
  have "filter (\<lambda>x. cs_slot x = s) (concat (map (\<lambda>s. filter (\<lambda>x. cs_slot x = s) xs) ss)) =
    (if s \<in> set ss then filter (\<lambda>x. cs_slot x = s) xs else [])" if "distinct ss" for ss
    using that by (induction ss) (auto intro!: filter_False)
  moreover have "distinct SLOT_ORDER" by (simp add: SLOT_ORDER_def)
  ultimately show ?thesis by (simp add: in_canonical_order_def)
qed

lemma canonical_sorted: "sorted (map (slot_rank \<circ> cs_slot) (in_canonical_order xs))"
proof -
  have "sorted (map (slot_rank \<circ> cs_slot) (concat (map (\<lambda>s. filter (\<lambda>x. cs_slot x = s) xs) ss)))"
    if "sorted_wrt (<) (map slot_rank ss)" for ss
    using that
  proof (induction ss)
    case (Cons s ss)
    have "sorted (map (slot_rank \<circ> cs_slot) (filter (\<lambda>x. cs_slot x = s) xs))" by (induction xs) auto
    then show ?case using Cons by (auto simp: sorted_append less_imp_le comp_def)
  qed simp
  then show ?thesis unfolding in_canonical_order_def using slot_order_sorted by blast
qed

lemma canonical_cong: "(\<And>s. filter (\<lambda>x. cs_slot x = s) xs = filter (\<lambda>x. cs_slot x = s) ys) \<Longrightarrow> in_canonical_order xs = in_canonical_order ys"
  by (simp add: in_canonical_order_def)

lemma canonical_length [simp]: "length (in_canonical_order xs) = length xs"
proof -
  have "length (in_canonical_order xs) = (\<Sum>s\<leftarrow>SLOT_ORDER. length (filter (\<lambda>x. cs_slot x = s) xs))"
    by (simp add: in_canonical_order_def length_concat comp_def)
  also have "\<dots> = length xs"
  proof (induction xs)
    case (Cons x xs)
    then show ?case by (cases "cs_slot x") (simp_all add: SLOT_ORDER_def)
  qed (simp add: SLOT_ORDER_def)
  finally show ?thesis .
qed

text \<open>Two lists in canonical order with the same entries of every slot are equal.\<close>

lemma canonical_unique:
  assumes "sorted (map (slot_rank \<circ> cs_slot) xs)" "sorted (map (slot_rank \<circ> cs_slot) ys)"
    and "\<And>s. filter (\<lambda>x. cs_slot x = s) xs = filter (\<lambda>x. cs_slot x = s) ys"
  shows "xs = ys"
  using assms
proof (induction xs arbitrary: ys)
  case Nil
  show ?case
  proof (cases ys)
    case (Cons y ys')
    then show ?thesis using Nil.prems(3) [of "cs_slot y"] by simp
  qed simp
next
  case (Cons x xs)
  have fx: "filter (\<lambda>y. cs_slot y = cs_slot x) ys = x # filter (\<lambda>y. cs_slot y = cs_slot x) xs"
    using Cons.prems(3) [of "cs_slot x"] by simp
  then obtain y ys' where ys: "ys = y # ys'" by (cases ys) auto
  have "y \<in> set (x # xs)"
  proof -
    have "y \<in> set (filter (\<lambda>z. cs_slot z = cs_slot y) (x # xs))" unfolding Cons.prems(3) by (simp add: ys)
    then show ?thesis by (auto split: if_splits)
  qed
  then have "slot_rank (cs_slot x) \<le> slot_rank (cs_slot y)" using Cons.prems(1) by auto
  moreover have "x \<in> set ys" using fx by (metis filter_is_subset list.set_intros(1) subsetD)
  then have "slot_rank (cs_slot y) \<le> slot_rank (cs_slot x)" using Cons.prems(2) ys by auto
  ultimately have same: "cs_slot y = cs_slot x" using slot_rank_inj by (metis le_antisym)
  then have xy: "y = x" using fx ys by simp
  have "filter (\<lambda>z. cs_slot z = s) xs = filter (\<lambda>z. cs_slot z = s) ys'" for s
    using Cons.prems(3) [of s] ys xy by (simp split: if_splits)
  then have "xs = ys'" using Cons.IH [of ys'] Cons.prems(1,2) ys by simp
  then show ?case using ys xy by simp
qed

lemma canonical_id: "sorted (map (slot_rank \<circ> cs_slot) xs) \<Longrightarrow> in_canonical_order xs = xs"
  by (rule canonical_unique [OF canonical_sorted]) (simp_all add: canonical_filter)

section \<open>The rendered text\<close>

definition entry_of :: "context_slot \<Rightarrow> pystr" where
  "entry_of x = entry_line (cs_slot x) (cs_memory_id x) (cs_tokens x) (cs_text x)"

definition wf_slot :: "context_slot \<Rightarrow> bool" where
  "wf_slot x \<longleftrightarrow> valid_id (cs_memory_id x) \<and> small_int (cs_tokens x) \<and> wf_text (cs_text x)"

fun lines_of :: "slot option \<Rightarrow> context_slot list \<Rightarrow> pystr list" where
  "lines_of current [] = []"
| "lines_of current (x # xs) =
     (if Some (cs_slot x) \<noteq> current then [[], cps (SECTION_LABELS (cs_slot x))] else []) @ entry_of x # lines_of (Some (cs_slot x)) xs"

lemma body_lines_eq: "\<forall>x\<in>set xs. small_int (cs_tokens x) \<Longrightarrow> body_lines current xs = ok (lines_of current xs)"
  by (induction xs arbitrary: current) (simp_all add: render_entry_line entry_of_def)

lemma body_lines_error: "\<exists>x\<in>set xs. \<not> small_int (cs_tokens x) \<Longrightarrow> body_lines current xs = raise ValueError"
proof (induction xs arbitrary: current)
  case (Cons x xs)
  show ?case
  proof (cases "small_int (cs_tokens x)")
    case True
    then show ?thesis using Cons by (simp add: render_entry_line)
  qed (simp add: render_entry_line)
qed simp

lemma structural_no_newline: "l \<in> set STRUCTURAL_LINES \<Longrightarrow> 10 \<notin> set l"
  by (auto simp: STRUCTURAL_LINES_def SLOT_ORDER_def SECTION_LABELS_def MEMORY_HEADER_def cps_def)

lemma structural_members: "cps MEMORY_HEADER \<in> set STRUCTURAL_LINES" "[] \<in> set STRUCTURAL_LINES" "cps (SECTION_LABELS s) \<in> set STRUCTURAL_LINES"
  by (simp_all add: STRUCTURAL_LINES_def) 

lemma entry_not_structural: "entry_of x \<notin> set STRUCTURAL_LINES"
proof
  assume "entry_of x \<in> set STRUCTURAL_LINES"
  then have "take 1 (entry_of x) \<in> take 1 ` set STRUCTURAL_LINES" by blast
  moreover have "take 1 (entry_of x) = [45]" by (simp add: entry_of_def entry_line_def cps_def)
  ultimately show False by (simp add: STRUCTURAL_LINES_def SLOT_ORDER_def SECTION_LABELS_def MEMORY_HEADER_def cps_def)
qed

lemma entry_no_newline: "10 \<notin> set (entry_of x)"
  using printable_entry_line [of "cs_slot x" "cs_memory_id x" "cs_tokens x" "cs_text x"] by (auto simp: entry_of_def printable_def)

lemma lines_of_spec:
  "filter (\<lambda>l. l \<notin> set STRUCTURAL_LINES) (lines_of current xs) = map entry_of xs"
  "\<forall>l\<in>set (lines_of current xs). 10 \<notin> set l"
proof -
  show "filter (\<lambda>l. l \<notin> set STRUCTURAL_LINES) (lines_of current xs) = map entry_of xs"
    by (induction xs arbitrary: current) (simp_all add: entry_not_structural structural_members)
  show "\<forall>l\<in>set (lines_of current xs). 10 \<notin> set l"
    by (induction xs arbitrary: current) (auto simp: entry_no_newline structural_no_newline [OF structural_members(3)])
qed

lemma render_eq:
  assumes "\<forall>x\<in>set xs. small_int (cs_tokens x)"
  shows "render xs = ok \<lparr>cb_header = MEMORY_HEADER, cb_slots = in_canonical_order xs,
     cb_rendered = (if xs = [] then [] else join_lines (cps MEMORY_HEADER # lines_of None (in_canonical_order xs)))\<rparr>"
proof -
  have "in_canonical_order xs = [] \<longleftrightarrow> xs = []" by (metis canonical_length length_0_conv)
  moreover have "body_lines None (in_canonical_order xs) = ok (lines_of None (in_canonical_order xs))"
    using assms by (intro body_lines_eq) simp
  ultimately show ?thesis by (simp add: render_def render_text_def Let_def)
qed

lemma rendered_lines:
  "split_lines (join_lines (cps MEMORY_HEADER # lines_of None xs)) = cps MEMORY_HEADER # lines_of None xs"
  using lines_of_spec(2) [of None xs] structural_no_newline [OF structural_members(1)] by (intro split_join) auto

lemma parse_entry_of: "wf_slot x \<Longrightarrow> parse_entry (entry_of x) = ok (Some (x\<lparr>cs_text := join_surrogates (cs_text x)\<rparr>))"
  by (simp add: wf_slot_def entry_of_def parse_entry_line)

section \<open>Properties\<close>


text \<open>The order of a block: its slots are the given ones grouped by the canonical slot order, each slot's entries
  in their given order; any list with the same entries per slot renders to the same block, and an already placed
  list keeps its order, so \<open>slots\<close> and \<open>rendered\<close> agree.\<close>

theorem render_canonical:
  assumes "render xs = ok b"
  shows "sorted (map (slot_rank \<circ> cs_slot) (cb_slots b)) \<and>
     (\<forall>s. filter (\<lambda>x. cs_slot x = s) (cb_slots b) = filter (\<lambda>x. cs_slot x = s) xs) \<and>
     (\<forall>ys. (\<forall>s. filter (\<lambda>x. cs_slot x = s) ys = filter (\<lambda>x. cs_slot x = s) xs) \<longrightarrow> render ys = ok b) \<and>
     (sorted (map (slot_rank \<circ> cs_slot) xs) \<longrightarrow> cb_slots b = xs)"
proof -
  have s: "cb_slots b = in_canonical_order xs" using assms by (auto simp: render_def Let_def res_simps)
  have "render ys = ok b" if "\<forall>s. filter (\<lambda>x. cs_slot x = s) ys = filter (\<lambda>x. cs_slot x = s) xs" for ys
    using that assms canonical_cong [of ys xs] by (simp add: render_def)
  then show ?thesis using s canonical_sorted canonical_filter canonical_id by simp
qed

text \<open>An empty slot list renders as the empty block; a token count the interpreter refuses to print, and
  only that, makes rendering raise.\<close>

theorem render_errors:
  "render [] = ok empty_context_block \<and> (render xs = raise ValueError \<longleftrightarrow> \<not> list_all (\<lambda>x. small_int (cs_tokens x)) xs)"
proof -
  have "render xs = raise ValueError" if x: "\<exists>x\<in>set xs. \<not> small_int (cs_tokens x)"
  proof -
    have "in_canonical_order xs \<noteq> []" using x canonical_set [of xs] by fastforce
    then show ?thesis using body_lines_error [of "in_canonical_order xs" None] x by (simp add: render_def render_text_def Let_def)
  qed
  moreover have "render xs \<noteq> raise ValueError" if "\<forall>x\<in>set xs. small_int (cs_tokens x)" using render_eq [OF that] by simp
  moreover have "render [] = ok empty_context_block" using render_eq [of "[]"] by (simp add: empty_context_block_def in_canonical_order_def)
  ultimately show ?thesis unfolding list_all_iff by blast
qed

text \<open>Bytes do depend on the input order: two entries of one slot render in the order given, so two lists of
  the same slots can give different text.\<close>

theorem render_depends_on_order:
  "\<exists>xs b b'. render xs = ok b \<and> render (rev xs) = ok b' \<and> cb_rendered b \<noteq> cb_rendered b'"
proof -
  define xs where "xs = [\<lparr>cs_slot = FACT, cs_memory_id = None, cs_tokens = 1, cs_text = [97]\<rparr>, \<lparr>cs_slot = FACT, cs_memory_id = None, cs_tokens = 2, cs_text = [98]\<rparr>]"
  have "render xs = ok \<lparr>cb_header = MEMORY_HEADER, cb_slots = xs, cb_rendered = join_lines (cps MEMORY_HEADER # lines_of None xs)\<rparr>"
    "render (rev xs) = ok \<lparr>cb_header = MEMORY_HEADER, cb_slots = rev xs, cb_rendered = join_lines (cps MEMORY_HEADER # lines_of None (rev xs))\<rparr>"
    by (simp_all add: render_eq xs_def small_int_def INT_MAX_STR_DIGITS_def dec_digits.simps [of 2] dec_digits.simps [of "Suc 0"] canonical_id slot_rank_def)
  moreover have "lines_of None xs \<noteq> lines_of None (rev xs)"
    by (simp add: xs_def entry_of_def entry_line_def id_token_def dec_digits.simps [of 2] dec_digits.simps [of "Suc 0"])
  then have "join_lines (cps MEMORY_HEADER # lines_of None xs) \<noteq> join_lines (cps MEMORY_HEADER # lines_of None (rev xs))"
    using rendered_lines [of xs] rendered_lines [of "rev xs"] by (metis list.sel(3))
  ultimately show ?thesis by (intro exI [of _ xs]) simp
qed

section \<open>Witnesses\<close>

definition sample_slots :: "context_slot list" where
  "sample_slots = [\<lparr>cs_slot = FACT, cs_memory_id = Some 7, cs_tokens = 3, cs_text = cps MEMORY_HEADER @ [10] @ cps ''FACTS''\<rparr>,
     \<lparr>cs_slot = STATIC_PREFIX, cs_memory_id = None, cs_tokens = 2, cs_text = [34, 10, 34]\<rparr>]"

lemma sample_slots_wf: "\<forall>x\<in>set sample_slots. wf_slot x"
  by (simp add: sample_slots_def wf_slot_def valid_id_def small_int_def wf_text_def INT_MAX_STR_DIGITS_def cps_def MEMORY_HEADER_def
      dec_digits.simps [of 2] dec_digits.simps [of 3])

lemma sample_slots_shape: "length sample_slots = 2" "sample_slots \<noteq> []"
  by (simp_all add: sample_slots_def)


theorem render_canonical_witness:
  "\<exists>b. render sample_slots = ok b \<and> map cs_slot (cb_slots b) = [STATIC_PREFIX, FACT] \<and> sorted (map (slot_rank \<circ> cs_slot) (cb_slots b))"
proof -
  have "\<forall>x\<in>set sample_slots. small_int (cs_tokens x)" using sample_slots_wf unfolding wf_slot_def by blast
  note b = render_eq [OF this]
  have "map cs_slot (in_canonical_order sample_slots) = [STATIC_PREFIX, FACT]"
    by (simp add: in_canonical_order_def SLOT_ORDER_def sample_slots_def)
  moreover have "sorted (map (slot_rank \<circ> cs_slot) (in_canonical_order sample_slots))"
    using render_canonical [OF b] by (simp only: context_block.select_convs)
  ultimately show ?thesis by (intro exI conjI) (rule b, simp_all only: context_block.select_convs)
qed

end
