(* ===== verification/Pipeline.thy ===== *)
theory Pipeline
  imports Retriever Renderer
begin

text \<open>
  The orchestrator of a retrieval, \<open>src/src/tracebed/hotpath/pipeline.py\<close>: arm assignment, the degradation ladder,
  the one exit that records and answers. The collaborators behind its ports, the clock and the acceptance of a block
  by the response model are the fields of an environment; a field that may raise returns a sum or an option. The calls
  that record something are the effects of a run, in order. \<open>pe_mono env i\<close> is the \<open>i\<close>-th reading of the
  monotonic clock: 0 on entry, 1 and 2 before the retriever, 3 after it, 4 after assembly, 5 for the latency.
\<close>

section \<open>Ports, results and effects\<close>

datatype config_exc = ConfigDeadline | ConfigException

datatype ladder_error = ClockFailed | RetrieverFailed retriever_error | AssemblyFailed assembly_error | LadderError py_error

datatype pipeline_error = RequestDeadlineExceeded | AuditFailed | InvalidResult

record pipeline_env =
  pe_now_ms :: "int option"
  pe_system_now_ms :: int
  pe_urandom :: "byte list"
  pe_mono :: "nat \<Rightarrow> real option"
  pe_config :: "project_id \<Rightarrow> agent_type_id \<Rightarrow> unit deadline option \<Rightarrow> config_exc + effective_config"
  pe_retriever :: "project_id \<Rightarrow> pystr \<Rightarrow> retrieval_config \<Rightarrow> unit deadline \<Rightarrow> retriever_error + retrieval_outcome"
  pe_assembly :: "project_scope \<Rightarrow> pystr \<Rightarrow> fused_candidate list \<Rightarrow> effective_config \<Rightarrow> unit deadline \<Rightarrow> assembly_error + candidate_set_result"
  pe_static_prefix :: "(project_scope \<Rightarrow> unit + context_block option) option"
  pe_injections :: bool
  pe_holdout_salt :: pystr
  pe_accepts :: "context_block \<Rightarrow> bool"

record ladder_result =
  lr_outcome_code :: outcome_code
  lr_context_block :: context_block
  lr_embed_latency_ms :: "int option"
  lr_candidates_considered :: nat
  lr_top_score :: "real option"
  lr_injections :: "injection_row list"

record retrieve_result =
  rr_run_id :: run_id
  rr_arm :: arm
  rr_outcome_code :: outcome_code
  rr_context_block :: context_block

record retrieval_event =
  rev_run_id :: run_id
  rev_outcome_code :: outcome_code
  rev_latency_ms :: int
  rev_embed_latency_ms :: "int option"
  rev_candidates_considered :: nat
  rev_top_score :: "real option"
  rev_arm :: arm

datatype pipeline_effect =
    AuditTerminal "injection_row list" retrieval_event
  | RecordInjections project_id run_id "injection_row list"
  | RecordRetrieval project_id retrieval_event

type_synonym audit_port = "injection_row list \<Rightarrow> retrieval_event \<Rightarrow> unit + unit"

record pipeline_run =
  pr_mint :: mint_state
  pr_deadline :: "unit deadline option"
  pr_effects :: "pipeline_effect list"
  pr_result :: "pipeline_error + retrieve_result"

section \<open>Boundary guards\<close>

definition pipeline_mint_run_id :: "pipeline_env \<Rightarrow> mint_state \<Rightarrow> run_id \<times> mint_state" where
  "pipeline_mint_run_id env st =
     (case pe_now_ms env of
        Some t \<Rightarrow> mint_run_id t (pe_urandom env) st
      | None \<Rightarrow> mint_run_id (pe_system_now_ms env) (pe_urandom env) st)"

definition latency_ms :: "pipeline_env \<Rightarrow> real option \<Rightarrow> int" where
  "latency_ms env mono_start =
     (case mono_start of
        None \<Rightarrow> 0
      | Some s \<Rightarrow> (case pe_mono env 5 of None \<Rightarrow> 0 | Some t \<Rightarrow> max 0 \<lfloor>t - s\<rfloor>))"

definition session_key :: "pystr option \<Rightarrow> run_id \<Rightarrow> pystr" where
  "session_key session_id r =
     (case session_id of
        None \<Rightarrow> cps (uuid_str (run_value r))
      | Some s \<Rightarrow> if strip_cp s \<noteq> [] then s else cps (uuid_str (run_value r)))"

definition pipeline_result :: "pipeline_env \<Rightarrow> run_id \<Rightarrow> arm \<Rightarrow> outcome_code \<Rightarrow> context_block \<Rightarrow> pipeline_error + retrieve_result" where
  "pipeline_result env r a code block =
     (if pe_accepts env block
      then Inr \<lparr>rr_run_id = r, rr_arm = a, rr_outcome_code = code, rr_context_block = block\<rparr>
      else if pe_accepts env empty_context_block
      then Inr \<lparr>rr_run_id = r, rr_arm = MEMORY_ON, rr_outcome_code = STORE_ERROR, rr_context_block = empty_context_block\<rparr>
      else Inl InvalidResult)"

section \<open>The ladder\<close>

definition read_clock :: "pipeline_env \<Rightarrow> nat \<Rightarrow> ladder_error + real" where
  "read_clock env i = (case pe_mono env i of None \<Rightarrow> Inl ClockFailed | Some t \<Rightarrow> Inr t)"

definition embed_bounded :: "real \<Rightarrow> retrieval_config \<Rightarrow> unit deadline \<Rightarrow> retrieval_config" where
  "embed_bounded t rc d =
     (let bounded = \<lceil>embed_sub_budget_ms t d\<rceil>
      in if bounded \<ge> rc_embed_timeout_ms rc then rc else rc\<lparr>rc_embed_timeout_ms := bounded\<rparr>)"

definition timeout_prefix_only :: "pipeline_env \<Rightarrow> project_scope \<Rightarrow> int option \<Rightarrow> ladder_result" where
  "timeout_prefix_only env scope embed_latency =
     \<lparr>lr_outcome_code = TIMEOUT_PREFIX_ONLY,
      lr_context_block =
        (case pe_static_prefix env of
           None \<Rightarrow> empty_context_block
         | Some get \<Rightarrow> (case get scope of Inr (Some block) \<Rightarrow> block | _ \<Rightarrow> empty_context_block)),
      lr_embed_latency_ms = embed_latency, lr_candidates_considered = 0, lr_top_score = None, lr_injections = []\<rparr>"

definition config_deadline_timeout :: ladder_result where
  "config_deadline_timeout =
     \<lparr>lr_outcome_code = TIMEOUT_PREFIX_ONLY, lr_context_block = empty_context_block, lr_embed_latency_ms = None,
      lr_candidates_considered = 0, lr_top_score = None, lr_injections = []\<rparr>"

definition lift_ladder :: "('e \<Rightarrow> ladder_error) \<Rightarrow> 'e + 'a \<Rightarrow> ladder_error + 'a" where
  "lift_ladder f r = (case r of Inl e \<Rightarrow> Inl (f e) | Inr x \<Rightarrow> Inr x)"

text \<open>The end of the ladder, once retrieval is back and the budget still holds.\<close>

definition assemble_rung :: "pipeline_env \<Rightarrow> project_scope \<Rightarrow> pystr \<Rightarrow> effective_config \<Rightarrow> unit deadline \<Rightarrow> retrieval_outcome \<Rightarrow> ladder_error + ladder_result" where
  "assemble_rung env scope query_text cfg d out =
     (case pe_assembly env scope query_text (ro_candidates out) cfg d of
        Inl e \<Rightarrow>
          if e = AssemblyDeadlineExceeded then Inr (timeout_prefix_only env scope (Some (ro_embed_latency_ms out)))
          else Inl (AssemblyFailed e)
      | Inr assembled \<Rightarrow>
          bind_res (read_clock env 4) (\<lambda>t.
          if total_exceeded t d then Inr (timeout_prefix_only env scope (Some (ro_embed_latency_ms out)))
          else bind_res (lift_ladder LadderError (render (csr_slots assembled))) (\<lambda>block.
            Inr \<lparr>lr_outcome_code = (if ro_degraded out then DEGRADED_LEXICAL else csr_outcome_code assembled),
                 lr_context_block = block, lr_embed_latency_ms = Some (ro_embed_latency_ms out),
                 lr_candidates_considered = ro_candidates_considered out, lr_top_score = csr_top_score assembled,
                 lr_injections = csr_injections assembled\<rparr>)))"

definition run_ladder :: "pipeline_env \<Rightarrow> project_scope \<Rightarrow> pystr \<Rightarrow> effective_config \<Rightarrow> real \<Rightarrow> unit deadline option \<Rightarrow> ladder_error + ladder_result" where
  "run_ladder env scope query_text cfg started_at_ms deadline =
     bind_res (case deadline of
                 Some d \<Rightarrow> Inr d
               | None \<Rightarrow> lift_ladder LadderError
                   (deadline_init started_at_ms (rc_total_budget_ms (retrieval cfg)) (rc_embed_timeout_ms (retrieval cfg)) (Some started_at_ms))) (\<lambda>d.
     bind_res (read_clock env 1) (\<lambda>t1.
     if total_exceeded t1 d then Inr (timeout_prefix_only env scope None)
     else bind_res (read_clock env 2) (\<lambda>t2.
     bind_res (lift_ladder RetrieverFailed
       (pe_retriever env (ps_project_id scope) query_text (embed_bounded t2 (retrieval cfg) d) d)) (\<lambda>out.
     bind_res (read_clock env 3) (\<lambda>t3.
     if total_exceeded t3 d then Inr (timeout_prefix_only env scope (Some (ro_embed_latency_ms out)))
     else assemble_rung env scope query_text cfg d out)))))"

section \<open>The exit\<close>

definition record_injections :: "pipeline_env \<Rightarrow> project_id \<Rightarrow> run_id \<Rightarrow> injection_row list \<Rightarrow> pipeline_effect list" where
  "record_injections env p r rows = (if \<not> pe_injections env \<or> rows = [] then [] else [RecordInjections p r rows])"

definition pipeline_finish :: "pipeline_env \<Rightarrow> project_scope \<Rightarrow> run_id \<Rightarrow> arm \<Rightarrow> ladder_result \<Rightarrow> real option \<Rightarrow> audit_port option \<Rightarrow>
    pipeline_effect list \<times> (pipeline_error + retrieve_result)" where
  "pipeline_finish env scope r a l mono_start audit =
     (case pipeline_result env r a (lr_outcome_code l) (lr_context_block l) of
        Inl e \<Rightarrow> ([], Inl e)
      | Inr result \<Rightarrow>
          let fallback = (rr_outcome_code result \<noteq> lr_outcome_code l \<or> rr_arm result \<noteq> a);
              injections = (if fallback then [] else lr_injections l);
              ev = \<lparr>rev_run_id = r, rev_outcome_code = rr_outcome_code result, rev_latency_ms = latency_ms env mono_start,
                    rev_embed_latency_ms = lr_embed_latency_ms l, rev_candidates_considered = lr_candidates_considered l,
                    rev_top_score = lr_top_score l, rev_arm = rr_arm result\<rparr>
          in case audit of
               Some record_terminal \<Rightarrow>
                 ([AuditTerminal injections ev],
                  case record_terminal injections ev of Inl _ \<Rightarrow> Inl AuditFailed | Inr _ \<Rightarrow> Inr result)
             | None \<Rightarrow> (record_injections env (ps_project_id scope) r injections @ [RecordRetrieval (ps_project_id scope) ev], Inr result))"

definition nothing_happened :: ladder_result where
  "nothing_happened =
     \<lparr>lr_outcome_code = STORE_ERROR, lr_context_block = empty_context_block, lr_embed_latency_ms = None,
      lr_candidates_considered = 0, lr_top_score = None, lr_injections = []\<rparr>"

definition arm_or_memory_on :: "arm res \<Rightarrow> arm" where
  "arm_or_memory_on r = (case r of Inl _ \<Rightarrow> MEMORY_ON | Inr a \<Rightarrow> a)"

text \<open>Narrowing the caller's deadline and climbing the ladder, under one guard: the deadline afterwards and the rung.\<close>

definition guarded_ladder :: "pipeline_env \<Rightarrow> project_scope \<Rightarrow> pystr \<Rightarrow> effective_config \<Rightarrow> real \<Rightarrow> unit deadline option \<Rightarrow> unit deadline option \<times> ladder_result" where
  "guarded_ladder env scope query_text cfg mono_start deadline =
     (let narrowed = (case deadline of
                        None \<Rightarrow> Inr None
                      | Some d \<Rightarrow> lift_ladder LadderError (bind_res (narrow_total_budget_ms (rc_total_budget_ms (retrieval cfg)) d) (\<lambda>(_, d'). ok (Some d'))))
      in case narrowed of
           Inl _ \<Rightarrow> (deadline, nothing_happened)
         | Inr d \<Rightarrow> (d, case run_ladder env scope query_text cfg mono_start d of Inl _ \<Rightarrow> nothing_happened | Inr l \<Rightarrow> l))"

definition withhold :: "arm \<Rightarrow> ladder_result \<Rightarrow> ladder_result" where
  "withhold a l = (if a = HOLDOUT then l\<lparr>lr_outcome_code := HOLDOUT_CODE, lr_context_block := empty_context_block\<rparr> else l)"

definition pipeline_retrieve :: "pipeline_env \<Rightarrow> mint_state \<Rightarrow> project_scope \<Rightarrow> pystr \<Rightarrow> pystr option \<Rightarrow> run_id option \<Rightarrow> unit deadline option \<Rightarrow> audit_port option \<Rightarrow> pipeline_run" where
  "pipeline_retrieve env st scope query_text session_id given deadline audit =
     (let (r, st') = (case given of None \<Rightarrow> pipeline_mint_run_id env st | Some r \<Rightarrow> (r, st));
          mono_start = pe_mono env 0;
          finish = (\<lambda>d a l. case pipeline_finish env scope r a l mono_start audit of
                      (effects, result) \<Rightarrow> \<lparr>pr_mint = st', pr_deadline = d, pr_effects = effects, pr_result = result\<rparr>)
      in case pe_config env (ps_project_id scope) (ps_agent_type_id scope) deadline of
           Inl ConfigDeadline \<Rightarrow>
             (case deadline of
                Some d \<Rightarrow> \<lparr>pr_mint = st', pr_deadline = Some d, pr_effects = [], pr_result = Inl RequestDeadlineExceeded\<rparr>
              | None \<Rightarrow> finish None MEMORY_ON config_deadline_timeout)
         | Inl ConfigException \<Rightarrow> finish deadline MEMORY_ON nothing_happened
         | Inr cfg \<Rightarrow>
             (case mono_start of
                None \<Rightarrow> finish deadline MEMORY_ON nothing_happened
              | Some t \<Rightarrow>
                  let a = arm_or_memory_on (assign_arm (session_key session_id r) (ps_agent_type_id scope) (pe_holdout_salt env) (ks_holdout_pct (killswitch cfg)));
                      (d, l) = guarded_ladder env scope query_text cfg t deadline
                  in finish d a (withhold a l)))"

section \<open>Every call answers and records once\<close>

fun events_of :: "pipeline_effect list \<Rightarrow> retrieval_event list" where
  "events_of [] = []"
| "events_of (AuditTerminal _ ev # es) = ev # events_of es"
| "events_of (RecordRetrieval _ ev # es) = ev # events_of es"
| "events_of (RecordInjections _ _ _ # es) = events_of es"

fun injections_recorded :: "pipeline_effect list \<Rightarrow> injection_row list" where
  "injections_recorded [] = []"
| "injections_recorded (AuditTerminal rows _ # es) = rows @ injections_recorded es"
| "injections_recorded (RecordRetrieval _ _ # es) = injections_recorded es"
| "injections_recorded (RecordInjections _ _ rows # es) = rows @ injections_recorded es"

definition event_of :: "pipeline_env \<Rightarrow> run_id \<Rightarrow> ladder_result \<Rightarrow> real option \<Rightarrow> retrieve_result \<Rightarrow> retrieval_event" where
  "event_of env r l mono_start result =
     \<lparr>rev_run_id = r, rev_outcome_code = rr_outcome_code result, rev_latency_ms = latency_ms env mono_start,
      rev_embed_latency_ms = lr_embed_latency_ms l, rev_candidates_considered = lr_candidates_considered l,
      rev_top_score = lr_top_score l, rev_arm = rr_arm result\<rparr>"

lemma record_injections_events [simp]: "events_of (record_injections env p r rows @ es) = events_of es"
  by (simp add: record_injections_def)

lemma record_injections_rows [simp]:
  "injections_recorded (record_injections env p r rows @ es) = (if pe_injections env then rows else []) @ injections_recorded es"
  by (simp add: record_injections_def)

lemma finish_cases:
  assumes "pe_accepts env empty_context_block" "pipeline_finish env scope r a l mono_start audit = (effects, res)"
  obtains result where "pipeline_result env r a (lr_outcome_code l) (lr_context_block l) = Inr result" "rr_run_id result = r"
    "events_of effects = [event_of env r l mono_start result]"
    "res = Inr result \<or> (\<exists>f x. audit = Some f \<and> f (injections_recorded effects) (event_of env r l mono_start result) = Inl x \<and> res = Inl AuditFailed)"
    "audit \<noteq> None \<or> pe_injections env \<longrightarrow> injections_recorded effects =
       (if rr_outcome_code result \<noteq> lr_outcome_code l \<or> rr_arm result \<noteq> a then [] else lr_injections l)"
proof -
  obtain result where r: "pipeline_result env r a (lr_outcome_code l) (lr_context_block l) = Inr result"
    using assms(1) by (cases "pipeline_result env r a (lr_outcome_code l) (lr_context_block l)") (auto simp: pipeline_result_def split: if_splits)
  then have id: "rr_run_id result = r" by (auto simp: pipeline_result_def split: if_splits)
  show thesis
  proof (cases audit)
    case None
    then show thesis using assms(2) r id that [of result] by (auto simp: pipeline_finish_def Let_def event_of_def)
  next
    case (Some f)
    then show thesis using assms(2) r id that [of result]
      by (auto simp: pipeline_finish_def Let_def event_of_def split: sum.splits)
  qed
qed

text \<open>The call either aborts on the deadline of its caller, or finishes with an arm and a rung.\<close>

definition aborts :: "pipeline_env \<Rightarrow> project_scope \<Rightarrow> unit deadline option \<Rightarrow> bool" where
  "aborts env scope deadline \<longleftrightarrow> deadline \<noteq> None \<and> pe_config env (ps_project_id scope) (ps_agent_type_id scope) deadline = Inl ConfigDeadline"

definition run_of :: "pipeline_env \<Rightarrow> mint_state \<Rightarrow> run_id option \<Rightarrow> run_id" where
  "run_of env st given = (case given of None \<Rightarrow> fst (pipeline_mint_run_id env st) | Some r \<Rightarrow> r)"

definition rung_of :: "pipeline_env \<Rightarrow> project_scope \<Rightarrow> pystr \<Rightarrow> unit deadline option \<Rightarrow> ladder_result" where
  "rung_of env scope query_text deadline =
     (case pe_config env (ps_project_id scope) (ps_agent_type_id scope) deadline of
        Inl ConfigDeadline \<Rightarrow> config_deadline_timeout
      | Inl ConfigException \<Rightarrow> nothing_happened
      | Inr cfg \<Rightarrow> (case pe_mono env 0 of None \<Rightarrow> nothing_happened | Some t \<Rightarrow> snd (guarded_ladder env scope query_text cfg t deadline)))"

definition arm_of :: "pipeline_env \<Rightarrow> project_scope \<Rightarrow> run_id \<Rightarrow> pystr option \<Rightarrow> unit deadline option \<Rightarrow> arm" where
  "arm_of env scope r session_id deadline =
     (case pe_config env (ps_project_id scope) (ps_agent_type_id scope) deadline of
        Inl _ \<Rightarrow> MEMORY_ON
      | Inr cfg \<Rightarrow> (case pe_mono env 0 of None \<Rightarrow> MEMORY_ON
          | Some t \<Rightarrow> arm_or_memory_on (assign_arm (session_key session_id r) (ps_agent_type_id scope) (pe_holdout_salt env) (ks_holdout_pct (killswitch cfg)))))"

lemma retrieve_aborts:
  "aborts env scope deadline \<Longrightarrow> pr_result (pipeline_retrieve env st scope q s given deadline audit) = Inl RequestDeadlineExceeded \<and>
     pr_effects (pipeline_retrieve env st scope q s given deadline audit) = []"
  by (cases "case given of None \<Rightarrow> pipeline_mint_run_id env st | Some r \<Rightarrow> (r, st)") (auto simp: aborts_def pipeline_retrieve_def Let_def)

lemma retrieve_finishes:
  assumes r_def: "r = run_of env st given" and "\<not> aborts env scope deadline"
  shows "(pr_effects (pipeline_retrieve env st scope q s given deadline audit), pr_result (pipeline_retrieve env st scope q s given deadline audit)) =
     pipeline_finish env scope r (arm_of env scope r s deadline) (withhold (arm_of env scope r s deadline) (rung_of env scope q deadline)) (pe_mono env 0) audit"
proof -
  obtain st' where m: "(case given of None \<Rightarrow> pipeline_mint_run_id env st | Some r \<Rightarrow> (r, st)) = (r, st')"
    by (cases given) (auto simp: r_def run_of_def intro: prod.collapse [symmetric])
  show ?thesis
  proof (cases "pe_config env (ps_project_id scope) (ps_agent_type_id scope) deadline")
    case (Inl e)
    then show ?thesis using assms(2) m
      by (cases e; cases deadline)
        (auto simp: pipeline_retrieve_def arm_of_def rung_of_def aborts_def withhold_def Let_def split: prod.splits)
  next
    case (Inr cfg)
    then show ?thesis using m
      by (cases "pe_mono env 0")
        (auto simp: pipeline_retrieve_def arm_of_def rung_of_def withhold_def Let_def split: prod.splits)
  qed
qed

lemma retrieve_cases:
  fixes st :: mint_state and s :: "pystr option" and q :: pystr
  assumes "pe_accepts env empty_context_block" "\<not> aborts env scope deadline"
  obtains result where
    "pipeline_result env (run_of env st given) (arm_of env scope (run_of env st given) s deadline)
       (lr_outcome_code (withhold (arm_of env scope (run_of env st given) s deadline) (rung_of env scope q deadline)))
       (lr_context_block (withhold (arm_of env scope (run_of env st given) s deadline) (rung_of env scope q deadline))) = Inr result"
    "rr_run_id result = run_of env st given"
    "events_of (pr_effects (pipeline_retrieve env st scope q s given deadline audit)) =
       [event_of env (run_of env st given) (withhold (arm_of env scope (run_of env st given) s deadline) (rung_of env scope q deadline)) (pe_mono env 0) result]"
    "pr_result (pipeline_retrieve env st scope q s given deadline audit) = Inr result \<or>
     (\<exists>f x. audit = Some f \<and> f (injections_recorded (pr_effects (pipeline_retrieve env st scope q s given deadline audit)))
        (event_of env (run_of env st given) (withhold (arm_of env scope (run_of env st given) s deadline) (rung_of env scope q deadline)) (pe_mono env 0) result) = Inl x \<and>
      pr_result (pipeline_retrieve env st scope q s given deadline audit) = Inl AuditFailed)"
    "audit \<noteq> None \<or> pe_injections env \<longrightarrow> injections_recorded (pr_effects (pipeline_retrieve env st scope q s given deadline audit)) =
       (if rr_outcome_code result \<noteq> lr_outcome_code (withhold (arm_of env scope (run_of env st given) s deadline) (rung_of env scope q deadline)) \<or>
           rr_arm result \<noteq> arm_of env scope (run_of env st given) s deadline
        then [] else lr_injections (withhold (arm_of env scope (run_of env st given) s deadline) (rung_of env scope q deadline)))"
  by (rule finish_cases [OF assms(1) retrieve_finishes [of "run_of env st given" env st given scope deadline q s audit, OF refl assms(2), symmetric]])
    (rule that; assumption)

text \<open>The rows a call records, when the response model takes every block.\<close>

lemma retrieve_rows:
  assumes "\<forall>b. pe_accepts env b" "\<not> aborts env scope deadline"
  shows "injections_recorded (pr_effects (pipeline_retrieve env st scope q s given deadline audit)) =
    (if audit = None \<and> \<not> pe_injections env then [] else lr_injections (rung_of env scope q deadline))"
proof -
  have w: "lr_injections (withhold a l) = lr_injections l" for a l by (simp add: withhold_def)
  have "pr_effects (pipeline_retrieve env st scope q s given deadline audit) =
    fst (pipeline_finish env scope (run_of env st given) (arm_of env scope (run_of env st given) s deadline)
      (withhold (arm_of env scope (run_of env st given) s deadline) (rung_of env scope q deadline)) (pe_mono env 0) audit)"
    by (simp add: retrieve_finishes [OF refl assms(2), symmetric])
  then show ?thesis using assms(1) by (cases audit) (simp_all add: pipeline_finish_def pipeline_result_def Let_def w)
qed

lemma rung_of_salt: "rung_of (env\<lparr>pe_holdout_salt := salt\<rparr>) scope q deadline = rung_of env scope q deadline"
proof -
  have c: "read_clock (env\<lparr>pe_holdout_salt := salt\<rparr>) = read_clock env" "timeout_prefix_only (env\<lparr>pe_holdout_salt := salt\<rparr>) = timeout_prefix_only env"
    by (simp_all add: fun_eq_iff read_clock_def timeout_prefix_only_def)
  have a: "assemble_rung (env\<lparr>pe_holdout_salt := salt\<rparr>) = assemble_rung env" unfolding fun_eq_iff assemble_rung_def c by simp
  have p: "pe_retriever (env\<lparr>pe_holdout_salt := salt\<rparr>) = pe_retriever env" by simp
  have r: "run_ladder (env\<lparr>pe_holdout_salt := salt\<rparr>) = run_ladder env" unfolding fun_eq_iff run_ladder_def c a p by simp
  have g: "guarded_ladder (env\<lparr>pe_holdout_salt := salt\<rparr>) = guarded_ladder env" unfolding fun_eq_iff guarded_ladder_def r by simp
  have m: "pe_mono (env\<lparr>pe_holdout_salt := salt\<rparr>) = pe_mono env" "pe_config (env\<lparr>pe_holdout_salt := salt\<rparr>) = pe_config env" by simp_all
  show ?thesis unfolding rung_of_def g m ..
qed

section \<open>What an answer contains\<close>

text \<open>
  The pipeline is a client of two ports. \<open>candidate_assembly\<close> is the contract of \<open>CandidateAssemblyPort\<close>: a slot
  is permitted and a result is accounted for. \<open>hybrid_retriever\<close> is the contract of \<open>HybridRetrieverPort\<close>: no
  memory is proposed twice.
\<close>

definition rung_sound :: "(project_scope \<Rightarrow> effective_config \<Rightarrow> context_slot \<Rightarrow> bool) \<Rightarrow> project_scope \<Rightarrow> effective_config \<Rightarrow> ladder_result \<Rightarrow> bool" where
  "rung_sound permitted scope cfg l \<longleftrightarrow> (\<exists>res. result_sound cfg res \<and> (\<forall>x\<in>set (csr_slots res). permitted scope cfg x) \<and>
     render (csr_slots res) = ok (lr_context_block l) \<and> lr_injections l = csr_injections res \<and>
     (lr_outcome_code l = csr_outcome_code res \<or> lr_outcome_code l = DEGRADED_LEXICAL))"

definition in_time :: "pipeline_env \<Rightarrow> unit deadline \<Rightarrow> bool" where
  "in_time env d \<longleftrightarrow> (\<exists>t. pe_mono env 4 = Some t \<and> \<not> total_exceeded t d)"

lemma render_slots: "render xs = ok b \<Longrightarrow> cb_slots b = in_canonical_order xs"
  by (auto simp: render_def Let_def res_simps)

lemma rung_sound_slots:
  assumes "rung_sound permitted scope cfg l"
  obtains res where "result_sound cfg res" "cb_slots (lr_context_block l) = csr_slots res" "lr_injections l = csr_injections res"
    "\<forall>x\<in>set (csr_slots res). permitted scope cfg x" "lr_outcome_code l = csr_outcome_code res \<or> lr_outcome_code l = DEGRADED_LEXICAL"
proof -
  obtain res where r: "result_sound cfg res" "\<forall>x\<in>set (csr_slots res). permitted scope cfg x" "render (csr_slots res) = ok (lr_context_block l)"
    "lr_injections l = csr_injections res" "lr_outcome_code l = csr_outcome_code res \<or> lr_outcome_code l = DEGRADED_LEXICAL"
    using assms unfolding rung_sound_def by blast
  have "cb_slots (lr_context_block l) = csr_slots res"
    using render_slots [OF r(3)] canonical_id r(1) by (simp add: result_sound_def)
  then show thesis using that r by blast
qed

lemma empty_blocks [simp]:
  "cb_slots empty_context_block = []" "lr_context_block nothing_happened = empty_context_block" "lr_context_block config_deadline_timeout = empty_context_block"
  "pe_static_prefix env = None \<Longrightarrow> lr_context_block (timeout_prefix_only env scope lat) = empty_context_block"
  by (simp_all add: empty_context_block_def nothing_happened_def config_deadline_timeout_def timeout_prefix_only_def)

definition narrowed_deadline :: "effective_config \<Rightarrow> unit deadline option \<Rightarrow> ladder_error + unit deadline option" where
  "narrowed_deadline cfg deadline =
     (case deadline of
        None \<Rightarrow> Inr None
      | Some d \<Rightarrow> lift_ladder LadderError (bind_res (narrow_total_budget_ms (rc_total_budget_ms (retrieval cfg)) d) (\<lambda>(_, d'). ok (Some d'))))"

lemma guarded_ladder_eq:
  "guarded_ladder env scope q cfg t deadline =
     (case narrowed_deadline cfg deadline of
        Inl _ \<Rightarrow> (deadline, nothing_happened)
      | Inr d \<Rightarrow> (d, case run_ladder env scope q cfg t d of Inl _ \<Rightarrow> nothing_happened | Inr l \<Rightarrow> l))"
  by (simp add: guarded_ladder_def narrowed_deadline_def)

lemma narrowed_facts:
  assumes "narrowed_deadline cfg deadline = Inr d0"
  shows "(deadline = None \<and> d0 = None) \<or> (\<exists>d d'. deadline = Some d \<and> d0 = Some d' \<and> dl_started_at_ms d' = dl_started_at_ms d \<and>
     dl_total_budget_ms d' \<le> rc_total_budget_ms (retrieval cfg))"
  using assms by (cases deadline) (auto simp: narrowed_deadline_def lift_ladder_def narrow_total_budget_ms_def split: if_splits)

locale candidate_assembly =
  fixes run :: "project_scope \<Rightarrow> pystr \<Rightarrow> fused_candidate list \<Rightarrow> effective_config \<Rightarrow> unit deadline \<Rightarrow> assembly_error + candidate_set_result"
    and permitted :: "project_scope \<Rightarrow> effective_config \<Rightarrow> context_slot \<Rightarrow> bool"
  assumes run_permitted: "run scope q fs cfg d = Inr res \<Longrightarrow> x \<in> set (csr_slots res) \<Longrightarrow> permitted scope cfg x"
    and run_sound: "run scope q fs cfg d = Inr res \<Longrightarrow> distinct (map fc_memory_id fs) \<Longrightarrow> result_sound cfg res"
begin

lemma assemble_rung_sound:
  assumes "pe_assembly env = run" "distinct (map fc_memory_id (ro_candidates out))" "assemble_rung env scope q cfg d out = Inr l"
  shows "l = timeout_prefix_only env scope (Some (ro_embed_latency_ms out)) \<or> (rung_sound permitted scope cfg l \<and> in_time env d)"
proof (cases "run scope q (ro_candidates out) cfg d")
  case (Inl e)
  then show ?thesis using assms(1,3) by (auto simp: assemble_rung_def split: if_splits)
next
  case (Inr res)
  obtain t where t: "pe_mono env 4 = Some t"
    using assms(1,3) Inr by (cases "pe_mono env 4") (auto simp: assemble_rung_def read_clock_def)
  show ?thesis
  proof (cases "total_exceeded t d")
    case True
    then show ?thesis using assms(1,3) Inr t by (simp add: assemble_rung_def read_clock_def)
  next
    case False
    then obtain block where b: "render (csr_slots res) = ok block" "lr_context_block l = block" "lr_injections l = csr_injections res"
      "lr_outcome_code l = csr_outcome_code res \<or> lr_outcome_code l = DEGRADED_LEXICAL"
      using assms(1,3) Inr t
      by (cases "render (csr_slots res)") (auto simp: assemble_rung_def read_clock_def lift_ladder_def)
    have "rung_sound permitted scope cfg l" unfolding rung_sound_def
      using b run_sound [OF Inr assms(2)] run_permitted [OF Inr] by (intro exI [of _ res]) simp
    moreover have "in_time env d" using t False by (simp add: in_time_def)
    ultimately show ?thesis by simp
  qed
qed

end

locale hybrid_retriever =
  fixes retrieve :: "project_id \<Rightarrow> pystr \<Rightarrow> retrieval_config \<Rightarrow> unit deadline \<Rightarrow> retriever_error + retrieval_outcome"
  assumes retrieve_distinct: "retrieve p q rc d = Inr out \<Longrightarrow> distinct (map fc_memory_id (ro_candidates out))"

locale retrieval_plane = candidate_assembly run permitted + hybrid_retriever retrieve
  for run and permitted and retrieve
begin

lemma ladder_sound:
  assumes env: "pe_assembly env = run" "pe_retriever env = retrieve" and l: "run_ladder env scope q cfg t0 deadline = Inr l"
    and d: "(case deadline of Some d \<Rightarrow> Inr d | None \<Rightarrow> lift_ladder LadderError
       (deadline_init t0 (rc_total_budget_ms (retrieval cfg)) (rc_embed_timeout_ms (retrieval cfg)) (Some t0))) = Inr d"
  shows "(\<exists>lat. l = timeout_prefix_only env scope lat) \<or> (rung_sound permitted scope cfg l \<and> in_time env d)"
proof -
  obtain t1 where t1: "pe_mono env 1 = Some t1" using l d by (cases "pe_mono env 1") (auto simp: run_ladder_def read_clock_def)
  show ?thesis
  proof (cases "total_exceeded t1 d")
    case True
    then show ?thesis using l d t1 by (auto simp: run_ladder_def read_clock_def)
  next
    case False
    obtain t2 where t2: "pe_mono env 2 = Some t2" using l d t1 False by (cases "pe_mono env 2") (auto simp: run_ladder_def read_clock_def)
    obtain out where out: "retrieve (ps_project_id scope) q (embed_bounded t2 (retrieval cfg) d) d = Inr out"
      using l d t1 t2 False env(2)
      by (cases "retrieve (ps_project_id scope) q (embed_bounded t2 (retrieval cfg) d) d") (auto simp: run_ladder_def read_clock_def lift_ladder_def)
    obtain t3 where t3: "pe_mono env 3 = Some t3"
      using l d t1 t2 False env(2) out by (cases "pe_mono env 3") (auto simp: run_ladder_def read_clock_def lift_ladder_def [of RetrieverFailed])
    have "run_ladder env scope q cfg t0 deadline =
        (if total_exceeded t3 d then Inr (timeout_prefix_only env scope (Some (ro_embed_latency_ms out))) else assemble_rung env scope q cfg d out)"
      unfolding run_ladder_def d using t1 t2 t3 False env(2) out by (simp add: read_clock_def lift_ladder_def)
    then show ?thesis using l assemble_rung_sound [OF env(1) retrieve_distinct [OF out], of scope q cfg d l] by (cases "total_exceeded t3 d") auto
  qed
qed

lemma rung_of_sound:
  assumes env: "pe_assembly env = run" "pe_retriever env = retrieve" "pe_static_prefix env = None"
    and slots: "cb_slots (lr_context_block (rung_of env scope q deadline)) \<noteq> []"
  shows "\<exists>cfg t0 d. pe_config env (ps_project_id scope) (ps_agent_type_id scope) deadline = Inr cfg \<and> pe_mono env 0 = Some t0 \<and>
     rung_sound permitted scope cfg (rung_of env scope q deadline) \<and> in_time env d \<and>
     dl_started_at_ms d = (case deadline of None \<Rightarrow> t0 | Some d0 \<Rightarrow> dl_started_at_ms d0) \<and> dl_total_budget_ms d \<le> rc_total_budget_ms (retrieval cfg)"
proof -
  obtain cfg where cfg: "pe_config env (ps_project_id scope) (ps_agent_type_id scope) deadline = Inr cfg"
    using slots by (cases "pe_config env (ps_project_id scope) (ps_agent_type_id scope) deadline")
      (auto simp: rung_of_def empty_blocks split: config_exc.splits)
  obtain t0 where t0: "pe_mono env 0 = Some t0" using slots cfg by (cases "pe_mono env 0") (auto simp: rung_of_def empty_blocks)
  have rung: "rung_of env scope q deadline = snd (guarded_ladder env scope q cfg t0 deadline)" using cfg t0 by (simp add: rung_of_def)
  obtain d0 l where n: "narrowed_deadline cfg deadline = Inr d0" "run_ladder env scope q cfg t0 d0 = Inr l" "rung_of env scope q deadline = l"
    using slots unfolding rung by (auto simp: guarded_ladder_eq empty_blocks split: sum.splits)
  obtain d where d: "(case d0 of Some d \<Rightarrow> Inr d | None \<Rightarrow> lift_ladder LadderError
       (deadline_init t0 (rc_total_budget_ms (retrieval cfg)) (rc_embed_timeout_ms (retrieval cfg)) (Some t0))) = Inr d"
    using n(2) by (cases "(case d0 of Some d \<Rightarrow> Inr d | None \<Rightarrow> lift_ladder LadderError
       (deadline_init t0 (rc_total_budget_ms (retrieval cfg)) (rc_embed_timeout_ms (retrieval cfg)) (Some t0)))") (simp_all add: run_ladder_def)
  have "rung_sound permitted scope cfg l \<and> in_time env d"
    using ladder_sound [OF env(1,2) n(2) d] slots env(3) n(3) by (auto simp: empty_blocks)
  moreover have "dl_started_at_ms d = (case deadline of None \<Rightarrow> t0 | Some d0 \<Rightarrow> dl_started_at_ms d0)" "dl_total_budget_ms d \<le> rc_total_budget_ms (retrieval cfg)"
    using narrowed_facts [OF n(1)] d by (auto simp: lift_ladder_def deadline_init_def split: option.splits sum.splits if_splits)
  ultimately show ?thesis using cfg t0 n(3) by (intro exI [of _ cfg] exI [of _ t0] exI [of _ d]) simp
qed

text \<open>An answer with a slot in it.\<close>

lemma answer_sound:
  assumes env: "pe_assembly env = run" "pe_retriever env = retrieve" "pe_static_prefix env = None" "pe_accepts env empty_context_block"
    and a: "pr_result (pipeline_retrieve env st scope q s given deadline audit) = Inr r" "x \<in> set (cb_slots (rr_context_block r))"
  shows "rr_arm r = MEMORY_ON \<and> rr_outcome_code r \<in> {INJECTED, DEGRADED_LEXICAL} \<and>
     (\<exists>cfg t0 t4. pe_config env (ps_project_id scope) (ps_agent_type_id scope) deadline = Inr cfg \<and> permitted scope cfg x \<and>
        sum_list (map cs_tokens (cb_slots (rr_context_block r))) \<le> max (bc_total_tokens (budget cfg)) 0 \<and>
        pe_mono env 0 = Some t0 \<and> pe_mono env 4 = Some t4 \<and>
        t4 - (case deadline of None \<Rightarrow> t0 | Some d \<Rightarrow> dl_started_at_ms d) < real_of_int (rc_total_budget_ms (retrieval cfg))) \<and>
     (audit \<noteq> None \<or> pe_injections env \<longrightarrow>
        set (map (\<lambda>i. (Some (memory_value (ir_memory_id i)), ir_slot i, ir_tokens i))
              (injections_recorded (pr_effects (pipeline_retrieve env st scope q s given deadline audit)))) =
        set (map (\<lambda>x. (cs_memory_id x, cs_slot x, cs_tokens x)) (cb_slots (rr_context_block r))))"
proof -
  let ?run = "pipeline_retrieve env st scope q s given deadline audit" and ?r = "run_of env st given"
  let ?a = "arm_of env scope ?r s deadline" and ?l = "rung_of env scope q deadline"
  have na: "\<not> aborts env scope deadline" using a(1) retrieve_aborts by fastforce
  obtain result where f: "pipeline_result env ?r ?a (lr_outcome_code (withhold ?a ?l)) (lr_context_block (withhold ?a ?l)) = Inr result"
    "rr_run_id result = ?r" "events_of (pr_effects ?run) = [event_of env ?r (withhold ?a ?l) (pe_mono env 0) result]"
    "pr_result ?run = Inr result \<or> (\<exists>f x. audit = Some f \<and> f (injections_recorded (pr_effects ?run)) (event_of env ?r (withhold ?a ?l) (pe_mono env 0) result) = Inl x \<and>
       pr_result ?run = Inl AuditFailed)"
    "audit \<noteq> None \<or> pe_injections env \<longrightarrow> injections_recorded (pr_effects ?run) =
       (if rr_outcome_code result \<noteq> lr_outcome_code (withhold ?a ?l) \<or> rr_arm result \<noteq> ?a then [] else lr_injections (withhold ?a ?l))"
    by (rule retrieve_cases [OF env(4) na])
  have res_r: "result = r" using f(4) a(1) by auto
  have r: "r = \<lparr>rr_run_id = ?r, rr_arm = ?a, rr_outcome_code = lr_outcome_code (withhold ?a ?l), rr_context_block = lr_context_block (withhold ?a ?l)\<rparr>"
    using f(1) a(2) unfolding res_r by (auto simp: pipeline_result_def split: if_splits)
  have on: "?a = MEMORY_ON" using a(2) r by (cases ?a) (auto simp: withhold_def empty_blocks)
  then have w: "withhold ?a ?l = ?l" by (simp add: withhold_def)
  have ne: "cb_slots (lr_context_block ?l) \<noteq> []" using a(2) r w by auto
  obtain cfg t0 d where o: "pe_config env (ps_project_id scope) (ps_agent_type_id scope) deadline = Inr cfg" "pe_mono env 0 = Some t0"
     "rung_sound permitted scope cfg ?l" "in_time env d"
     "dl_started_at_ms d = (case deadline of None \<Rightarrow> t0 | Some d0 \<Rightarrow> dl_started_at_ms d0)" "dl_total_budget_ms d \<le> rc_total_budget_ms (retrieval cfg)"
    using rung_of_sound [OF env(1-3) ne] by blast
  obtain res where res: "result_sound cfg res" "cb_slots (lr_context_block ?l) = csr_slots res" "lr_injections ?l = csr_injections res"
    "\<forall>x\<in>set (csr_slots res). permitted scope cfg x" "lr_outcome_code ?l = csr_outcome_code res \<or> lr_outcome_code ?l = DEGRADED_LEXICAL"
    using rung_sound_slots [OF o(3)] by blast
  obtain t4 where t4: "pe_mono env 4 = Some t4" "\<not> total_exceeded t4 d" using o(4) by (auto simp: in_time_def)
  have "t4 - (case deadline of None \<Rightarrow> t0 | Some d \<Rightarrow> dl_started_at_ms d) < real_of_int (rc_total_budget_ms (retrieval cfg))"
    using t4(2) o(5,6) by (simp add: total_exceeded_def remaining_ms_def elapsed_ms_def)
  moreover have "permitted scope cfg x" "sum_list (map cs_tokens (cb_slots (rr_context_block r))) \<le> max (bc_total_tokens (budget cfg)) 0"
    using a(2) r w res by (auto simp: result_sound_def)
  moreover have "rr_outcome_code r \<in> {INJECTED, DEGRADED_LEXICAL}" using res(1,2,5) ne r w by (auto simp: result_sound_def)
  moreover have "injections_recorded (pr_effects ?run) = lr_injections ?l" if "audit \<noteq> None \<or> pe_injections env"
    using mp [OF f(5) that] r w res_r by simp
  ultimately show ?thesis using r on o(1,2) t4(1) res(1,2,3) w by (auto simp: result_sound_def)
qed

end

text \<open>Both contracts hold of the components the service wires in.\<close>

interpretation plane: retrieval_plane "\<lambda>scope q fs cfg d. assembly_run aenv d scope q fs cfg" "slot_permitted aenv" "retriever_retrieve renv"
  for aenv :: assembly_env and renv :: retriever_env
proof unfold_locales
  show "slot_permitted aenv scope cfg x" if "assembly_run aenv d scope q fs cfg = Inr res" "x \<in> set (csr_slots res)"
    for scope q fs cfg d res x using that by (rule run_slot_permitted)
  show "result_sound cfg res" if "assembly_run aenv d scope q fs cfg = Inr res" "distinct (map fc_memory_id fs)"
    for scope q fs cfg d res using that by (rule run_result_sound)
  show "distinct (map fc_memory_id (ro_candidates out))" if "retriever_retrieve renv p q rc d = Inr out"
    for p q rc d out using that by (rule retriever_outcome_facts)
qed

section \<open>Properties\<close>


text \<open>C10. A run in the holdout arm gets no memory and is still a control: whatever its rung, the block it is answered
  with is empty and the code is the holdout code, while the rows recorded as injections are those of the rung, the same
  whatever salt decides the arm; in the other arm block and code are those of the rung.\<close>

theorem holdout_withholds:
  assumes "\<forall>b. pe_accepts env b" "pr_result (pipeline_retrieve env st scope q s given deadline audit) = Inr r"
  shows "rr_context_block r = (if rr_arm r = HOLDOUT then empty_context_block else lr_context_block (rung_of env scope q deadline)) \<and>
     rr_outcome_code r = (if rr_arm r = HOLDOUT then HOLDOUT_CODE else lr_outcome_code (rung_of env scope q deadline)) \<and>
     (\<forall>salt. injections_recorded (pr_effects (pipeline_retrieve (env\<lparr>pe_holdout_salt := salt\<rparr>) st scope q s given deadline audit)) =
        (if audit = None \<and> \<not> pe_injections env then [] else lr_injections (rung_of env scope q deadline)))"
proof -
  have na: "\<not> aborts env scope deadline" using assms(2) retrieve_aborts [of env scope deadline st q s given audit] by auto
  have acc: "pe_accepts env empty_context_block" using assms(1) by simp
  have rows: "injections_recorded (pr_effects (pipeline_retrieve e st scope q s given deadline audit)) =
      (if audit = None \<and> \<not> pe_injections env then [] else lr_injections (rung_of env scope q deadline))"
    if e: "e = env\<lparr>pe_holdout_salt := salt\<rparr>" for e salt
  proof -
    have same: "rung_of e scope q deadline = rung_of env scope q deadline" "\<not> aborts e scope deadline" "pe_accepts e = pe_accepts env"
      "pe_injections e = pe_injections env" using na by (simp_all add: e rung_of_salt aborts_def)
    show ?thesis
      using retrieve_rows [of e scope deadline st q s given audit] same assms(1) by simp
  qed
  obtain result where "pipeline_result env (run_of env st given) (arm_of env scope (run_of env st given) s deadline)
       (lr_outcome_code (withhold (arm_of env scope (run_of env st given) s deadline) (rung_of env scope q deadline)))
       (lr_context_block (withhold (arm_of env scope (run_of env st given) s deadline) (rung_of env scope q deadline))) = Inr result" "result = r"
    by (rule retrieve_cases [OF acc na, of st given s q audit]) (use assms(2) in auto)
  then show ?thesis using assms(1) rows by (auto simp: pipeline_result_def withhold_def split: if_splits)
qed

section \<open>Witnesses\<close>

text \<open>A service whose embedder times out and whose lexical arm finds the sample memory; no salt is set.\<close>

definition sample_lexical_retriever :: retriever_env where
  "sample_lexical_retriever = sample_retriever\<lparr>hr_lexical := (\<lambda>_ _ _. Inr [\<lparr>ah_memory_id = MemoryId 5, ah_raw_score = 20, ah_trust_tier = TierB, ah_status = VALIDATED\<rparr>])\<rparr>"

definition sample_pipeline :: pipeline_env where
  "sample_pipeline = \<lparr>pe_now_ms = Some 1, pe_system_now_ms = 1, pe_urandom = [0, 0, 0, 0, 0, 0, 0, 0], pe_mono = (\<lambda>_. Some 0),
     pe_config = (\<lambda>_ _ _. Inr default_config), pe_retriever = retriever_retrieve sample_lexical_retriever,
     pe_assembly = (\<lambda>scope q fs cfg d. assembly_run sample_env d scope q fs cfg), pe_static_prefix = None, pe_injections = True,
     pe_holdout_salt = [], pe_accepts = (\<lambda>_. True)\<rparr>"

lemma sample_pipeline_ports:
  "pe_accepts sample_pipeline b" "pe_static_prefix sample_pipeline = None" "pe_mono sample_pipeline i = Some 0"
  "pe_config sample_pipeline p a d = Inr default_config" "pe_retriever sample_pipeline = retriever_retrieve sample_lexical_retriever"
  "pe_assembly sample_pipeline = (\<lambda>scope q fs cfg d. assembly_run sample_env d scope q fs cfg)" "\<not> aborts sample_pipeline scope d"
  by (simp_all add: sample_pipeline_def aborts_def)

lemma sample_pipeline_answers: "\<exists>r. pr_result (pipeline_retrieve sample_pipeline st scope q s given None None) = Inr r"
  by (rule retrieve_cases [OF sample_pipeline_ports(1) sample_pipeline_ports(7) [of scope None], of st given s q None]) auto


theorem holdout_withholds_witness:
  "\<exists>r. pr_result (pipeline_retrieve sample_pipeline mint_init sample_scope sample_text None None None None) = Inr r \<and>
     rr_outcome_code r = (if rr_arm r = HOLDOUT then HOLDOUT_CODE else lr_outcome_code (rung_of sample_pipeline sample_scope sample_text None))"
proof -
  obtain r where r: "pr_result (pipeline_retrieve sample_pipeline mint_init sample_scope sample_text None None None None) = Inr r"
    using sample_pipeline_answers by blast
  then show ?thesis using holdout_withholds [OF _ r] sample_pipeline_ports(1) by blast
qed

end
