(* ===== verification/Spec2Isabelle.thy ===== *)
theory Spec2Isabelle
  imports Shadow_Validator Promotion Ring_Buffer Pipeline
begin

text \<open>
  A verification of the memory service under \<open>src/src/tracebed\<close>.
\<close>

section \<open>The read path as a whole\<close>

text \<open>C8. What the service delivers, end to end: with the retriever and the candidate assembly of the code behind the
  pipeline and no cached prefix, every memory in the block of an answer is the content of a row that the store returned
  for the project, in a retrievable status (a candidate only in tier A), visible to the agent type of the caller and
  not switched off; the run is in the memory-on arm, the block fits the configured token budget, it was assembled
  within the time budget, and the injection rows written for the run are exactly its slots.\<close>

theorem delivered_memory_permitted:
  assumes "pe_assembly env = (\<lambda>scope q fs cfg d. assembly_run aenv d scope q fs cfg)" "pe_retriever env = retriever_retrieve renv"
    and "pe_static_prefix env = None" "pe_accepts env empty_context_block"
    and "run = pipeline_retrieve env st scope q s given deadline audit" "pr_result run = Inr r" "x \<in> set (cb_slots (rr_context_block r))"
  shows "rr_arm r = MEMORY_ON \<and> rr_outcome_code r \<in> {INJECTED, DEGRADED_LEXICAL} \<and>
     (\<exists>cfg ids fetched row. pe_config env (ps_project_id scope) (ps_agent_type_id scope) deadline = Inr cfg \<and>
        env_fetch aenv (ps_project_id scope) ids = Inr fetched \<and> row \<in> set fetched \<and> mr_memory_id row \<in> set ids \<and>
        mr_status row \<in> RETRIEVABLE_STATUSES \<and> (mr_status row = CANDIDATE \<longrightarrow> mr_trust_tier row = TierA) \<and>
        (mr_scope_type row = PROJECT_SHARED \<or> mr_scope_type row = AGENT_TYPE \<and> mr_scope_id row = Some (agent_type_value (ps_agent_type_id scope))) \<and>
        killswitch_overlay cfg (mr_mem_type row) \<noteq> Some True \<and>
        cs_memory_id x = Some (memory_value (mr_memory_id row)) \<and> cs_text x = mr_content row \<and>
        sum_list (map cs_tokens (cb_slots (rr_context_block r))) \<le> max (bc_total_tokens (budget cfg)) 0 \<and>
        (\<exists>t0 t4. pe_mono env 0 = Some t0 \<and> pe_mono env 4 = Some t4 \<and>
           t4 - (case deadline of None \<Rightarrow> t0 | Some d \<Rightarrow> dl_started_at_ms d) < real_of_int (rc_total_budget_ms (retrieval cfg)))) \<and>
     (audit \<noteq> None \<or> pe_injections env \<longrightarrow>
        set (map (\<lambda>i. (Some (memory_value (ir_memory_id i)), ir_slot i, ir_tokens i)) (injections_recorded (pr_effects run))) =
        set (map (\<lambda>x. (cs_memory_id x, cs_slot x, cs_tokens x)) (cb_slots (rr_context_block r))))"
proof -
  have a: "rr_arm r = MEMORY_ON" "rr_outcome_code r \<in> {INJECTED, DEGRADED_LEXICAL}"
    "audit \<noteq> None \<or> pe_injections env \<longrightarrow>
        set (map (\<lambda>i. (Some (memory_value (ir_memory_id i)), ir_slot i, ir_tokens i)) (injections_recorded (pr_effects run))) =
        set (map (\<lambda>x. (cs_memory_id x, cs_slot x, cs_tokens x)) (cb_slots (rr_context_block r)))"
    "\<exists>cfg t0 t4. pe_config env (ps_project_id scope) (ps_agent_type_id scope) deadline = Inr cfg \<and> slot_permitted aenv scope cfg x \<and>
        sum_list (map cs_tokens (cb_slots (rr_context_block r))) \<le> max (bc_total_tokens (budget cfg)) 0 \<and>
        pe_mono env 0 = Some t0 \<and> pe_mono env 4 = Some t4 \<and>
        t4 - (case deadline of None \<Rightarrow> t0 | Some d \<Rightarrow> dl_started_at_ms d) < real_of_int (rc_total_budget_ms (retrieval cfg))"
    using plane.answer_sound [OF assms(1-4) assms(6,7) [unfolded assms(5)]] unfolding assms(5) by blast+
  obtain cfg t0 t4 where c: "pe_config env (ps_project_id scope) (ps_agent_type_id scope) deadline = Inr cfg" "slot_permitted aenv scope cfg x"
    "sum_list (map cs_tokens (cb_slots (rr_context_block r))) \<le> max (bc_total_tokens (budget cfg)) 0" "pe_mono env 0 = Some t0" "pe_mono env 4 = Some t4"
    "t4 - (case deadline of None \<Rightarrow> t0 | Some d \<Rightarrow> dl_started_at_ms d) < real_of_int (rc_total_budget_ms (retrieval cfg))"
    using a(4) by blast
  obtain ids fetched row and f :: fused_candidate where o: "env_fetch aenv (ps_project_id scope) ids = Inr fetched" "row \<in> set fetched" "fc_memory_id f \<in> set ids"
    "fc_memory_id f = mr_memory_id row" "mr_status row = VALIDATED \<or> mr_status row = CANDIDATE \<and> mr_trust_tier row = TierA"
    "mr_scope_type row = PROJECT_SHARED \<or> mr_scope_type row = AGENT_TYPE \<and> mr_scope_id row = Some (agent_type_value (ps_agent_type_id scope))"
    "killswitch_overlay cfg (mr_mem_type row) \<noteq> Some True" "cs_memory_id x = Some (memory_value (mr_memory_id row))" "cs_text x = mr_content row"
    using c(2) unfolding slot_permitted_def by blast
  have "mr_memory_id row \<in> set ids" using o(3,4) by simp
  moreover have "mr_status row \<in> RETRIEVABLE_STATUSES" "mr_status row = CANDIDATE \<longrightarrow> mr_trust_tier row = TierA"
    using o(5) by (auto simp: RETRIEVABLE_STATUSES_def)
  ultimately show ?thesis using a(1-3) c(1,3-6) o(1,2,6-9)
    by (intro conjI exI [of _ cfg] exI [of _ ids] exI [of _ fetched] exI [of _ row] exI [of _ t0] exI [of _ t4]) assumption+
qed

lemma sample_times: "\<not> total_exceeded 0 sample_request" "\<not> total_exceeded 1 sample_request"
  by (simp_all add: sample_request_def total_exceeded_def remaining_ms_def elapsed_ms_def)

lemma sample_fused_hit:
  "fuse [\<lparr>ah_memory_id = MemoryId 5, ah_raw_score = 20, ah_trust_tier = TierB, ah_status = VALIDATED\<rparr>] [] 60 1 1 = ok [sample_fused]"
  by (simp add: fuse_def rank_within_arm_def by_id_def Let_def fuse_entry_def signal_of_def mk_arm_signal_def fused_post_init_def sample_fused_def)

lemma sample_retrieval:
  "retriever_retrieve sample_lexical_retriever p q (retrieval default_config) sample_request =
     Inr \<lparr>ro_candidates = [sample_fused], ro_degraded = True, ro_embed_latency_ms = 200, ro_candidates_considered = 1\<rparr>"
  by (simp add: retriever_retrieve_def sample_lexical_retriever_def sample_retriever_def sample_arm_def submit_arm_def run_arm_def arm_pool_is_wedged_def
      ARM_WORKER_COUNT_def sample_times embed_query_def embed_timeout_def await_arm_def lift_arm_def lift_retriever_def default_retrieval sample_fused_hit Let_def)

lemma sample_deadline_init:
  "deadline_init 0 (rc_total_budget_ms (retrieval default_config)) (rc_embed_timeout_ms (retrieval default_config)) (Some 0) = ok sample_request"
  by (simp add: deadline_init_def default_config_def sample_request_def)

lemma sample_embed_bounded: "embed_bounded 0 (retrieval default_config) sample_request = retrieval default_config"
  by (simp add: embed_bounded_def embed_sub_budget_ms_def remaining_ms_def elapsed_ms_def sample_request_def default_config_def)

lemma sample_tokens_small: "small_int 12"
  by (simp add: small_int_def INT_MAX_STR_DIGITS_def dec_digits.simps [of 12] dec_digits.simps [of "Suc 0"])

lemma sample_rung:
  obtains x where "x \<in> set (cb_slots (lr_context_block (rung_of sample_pipeline sample_scope sample_text None)))"
proof -
  obtain res where res: "assembly_run sample_env sample_request sample_scope sample_text [sample_fused] default_config = Inr res" "csr_slots res \<noteq> []"
    using sample_run by blast
  have "small_int (cs_tokens x)" if "x \<in> set (csr_slots res)" for x
    using run_gatekeeping [OF res(1) that] sample_tokens_small by (auto simp: sample_env_def sample_memory_row_def)
  then obtain block where block: "render (csr_slots res) = ok block" using render_eq by blast
  have "lr_context_block (rung_of sample_pipeline sample_scope sample_text None) = block"
    using res(1) block sample_times
    by (simp add: rung_of_def guarded_ladder_def run_ladder_def assemble_rung_def sample_pipeline_ports read_clock_def lift_ladder_def
        sample_deadline_init sample_embed_bounded sample_retrieval)
  then show thesis using render_slots [OF block] res(2) that [of "hd (csr_slots res)"] by simp
qed

theorem delivered_memory_permitted_witness:
  "\<exists>r x. pr_result (pipeline_retrieve sample_pipeline mint_init sample_scope sample_text None None None None) = Inr r \<and>
     x \<in> set (cb_slots (rr_context_block r)) \<and> cs_text x = sample_text \<and> rr_arm r = MEMORY_ON"
proof -
  let ?run = "pipeline_retrieve sample_pipeline mint_init sample_scope sample_text None None None None"
  obtain x where x: "x \<in> set (cb_slots (lr_context_block (rung_of sample_pipeline sample_scope sample_text None)))" by (rule sample_rung)
  have on: "arm_of sample_pipeline sample_scope r None None = MEMORY_ON" for r
    by (auto simp: arm_of_def sample_pipeline_ports arm_or_memory_on_def assign_arm_def sample_pipeline_def split: sum.splits pyfloat.splits if_splits)
  obtain r where r: "pr_result ?run = Inr r" "rr_context_block r = lr_context_block (rung_of sample_pipeline sample_scope sample_text None)"
    by (rule retrieve_cases [OF sample_pipeline_ports(1) sample_pipeline_ports(7) [of sample_scope None], of mint_init None None sample_text None])
      (auto simp: on withhold_def pipeline_result_def sample_pipeline_ports)
  note d = delivered_memory_permitted [OF sample_pipeline_ports(6,5,2,1) refl r(1), of x]
  then show ?thesis using r x by (intro exI [of _ r] exI [of _ x]) (auto simp: sample_env_def sample_memory_row_def)
qed

end
